theory Spec2Isabelle
  imports Complex_Main "HOL-Library.Char_ord" "HOL-Library.List_Lexorder"
    "HOL-Library.Product_Lexorder"
begin

section \<open>Data model\<close>

text \<open>
  The functions of \<^verbatim>\<open>func_definitions.py\<close> read one pandas dataframe \<^verbatim>\<open>data\<close>: the
  weekly punctuality table with the stop metadata merged into it.  A dataframe is modelled
  as the list of its rows in table order, a row as a record of the columns the functions
  read.  String columns hold Python strings; a Python string is a \<^typ>\<open>string\<close> whose
  characters are the code points below 256 (so u-umlaut is the one character \<open>0xFC\<close>).
  Numeric columns hold floats, each modelled as the real number it stands for, with \<open>None\<close>
  for NaN (a missing value); the arithmetic on them rounds, see below.
  The columns \<^verbatim>\<open>halt_kurz\<close> and \<^verbatim>\<open>halt_lang\<close> come from the merged stop metadata and are
  missing (\<open>None\<close>) in a row whose stop has no metadata.
  \<^verbatim>\<open>func_defs.py\<close> holds the same functions reading the module-level table \<^verbatim>\<open>trams\<close>
  in place of the argument \<^verbatim>\<open>data\<close>.
\<close>

record obs =
  linie :: int
  fw_lang :: string
  halt_kurz :: "string option"
  halt_lang :: "string option"
  halt_kurz_von1 :: string
  halt_kurz_nach1 :: string
  holdup_stop :: "real option"
  holdup_trajectory :: "real option"
  total_holdup :: "real option"
  delay_after_trajectory :: "real option"

text \<open>
  What a call can do besides returning: raise one of the exceptions below, or never
  return.  An outcome is \<open>None\<close> when the call runs forever, \<open>Some (Inl e)\<close> when it
  raises \<open>e\<close> and \<open>Some (Inr v)\<close> when it returns \<open>v\<close>.
\<close>

datatype error = IndexError | KeyError string | ValueError | ZeroDivisionError

type_synonym 'a outcome = "(error + 'a) option"

abbreviation Returns :: "'a \<Rightarrow> 'a outcome" where
  "Returns v \<equiv> Some (Inr v)"

abbreviation Raises :: "error \<Rightarrow> 'a outcome" where
  "Raises e \<equiv> Some (Inl e)"

abbreviation Hangs :: "'a outcome" where
  "Hangs \<equiv> None"

definition and_then :: "'a outcome \<Rightarrow> ('a \<Rightarrow> 'b outcome) \<Rightarrow> 'b outcome" where
  "and_then m f = (case m of None \<Rightarrow> None | Some (Inl e) \<Rightarrow> Some (Inl e) | Some (Inr v) \<Rightarrow> f v)"

section \<open>Python and pandas primitives\<close>

text \<open>\<^verbatim>\<open>str.split()\<close> with no separator: the maximal runs of non-whitespace characters.\<close>

definition whitespace :: string where
  "whitespace = [CHR 0x09, CHR 0x0A, CHR 0x0B, CHR 0x0C, CHR 0x0D, CHR 0x1C, CHR 0x1D,
                 CHR 0x1E, CHR 0x1F, CHR 0x20, CHR 0x85, CHR 0xA0]"

fun split_from :: "string \<Rightarrow> string \<Rightarrow> string list" where
  "split_from tok [] = (if tok = [] then [] else [tok])"
| "split_from tok (c # cs) =
     (if c \<in> set whitespace
      then (if tok = [] then split_from [] cs else tok # split_from [] cs)
      else split_from (tok @ [c]) cs)"

definition split :: "string \<Rightarrow> string list" where
  "split s = split_from [] s"

text \<open>
  \<^verbatim>\<open>df.drop_duplicates(subset=key, keep="last")\<close> on a two-column frame of (key, value)
  rows: a row stays when no later row has its key; the rows that stay keep their order.
\<close>

fun drop_duplicates_last :: "('k \<times> 'v) list \<Rightarrow> ('k \<times> 'v) list" where
  "drop_duplicates_last [] = []"
| "drop_duplicates_last (r # rs) =
     (if fst r \<in> fst ` set rs then drop_duplicates_last rs else r # drop_duplicates_last rs)"

text \<open>
  \<^verbatim>\<open>df.set_index(key).loc[k][0]\<close> on such a frame with unique keys: the value of the row
  whose key is \<open>k\<close>; a missing key raises \<^verbatim>\<open>KeyError\<close>.
\<close>

definition loc :: "(string \<times> 'v) list \<Rightarrow> string \<Rightarrow> error + 'v" where
  "loc df k = (case map_of df k of None \<Rightarrow> Inl (KeyError k) | Some v \<Rightarrow> Inr v)"

section \<open>Floating-point arithmetic\<close>

text \<open>
  Python's \<^verbatim>\<open>float\<close> and numpy's \<^verbatim>\<open>float64\<close> are the binary64 numbers of IEEE 754, with a
  significand of 53 bits: from \<open>2 powi e\<close> up to \<open>2 powi (e + 1)\<close> they are the multiples
  of \<open>2 powi (e - 52)\<close>.  An arithmetic operation returns the exact result rounded to the
  nearest of them, a tie going to the even multiple; \<open>float64 x\<close> is the real \<open>x\<close> rounded
  in this way.  Overflow and the subnormal numbers are left out: the exponent is not
  bounded.
\<close>

definition round_half_even :: "real \<Rightarrow> int" where
  "round_half_even x =
     (let f = \<lfloor>x\<rfloor>; d = x - of_int f
      in if d < 1 / 2 then f else if 1 / 2 < d then f + 1 else if even f then f else f + 1)"

function halvings :: "real \<Rightarrow> nat" where
  "halvings x = (if x < 2 then 0 else Suc (halvings (x / 2)))"
  by pat_completeness auto
termination
proof (relation "measure (\<lambda>x. nat \<lfloor>x\<rfloor>)")
  show "wf (measure (\<lambda>x. nat \<lfloor>x\<rfloor>))" by simp
next
  fix x :: real
  assume "\<not> x < 2"
  then have "x / 2 \<le> x - 1" by simp
  then have "\<lfloor>x / 2\<rfloor> \<le> \<lfloor>x - 1\<rfloor>" by (rule floor_mono)
  moreover have "\<lfloor>x - 1\<rfloor> = \<lfloor>x\<rfloor> - 1" by simp
  moreover from \<open>\<not> x < 2\<close> have "2 \<le> \<lfloor>x\<rfloor>" by (simp add: le_floor_iff)
  ultimately show "(x / 2, x) \<in> measure (\<lambda>x. nat \<lfloor>x\<rfloor>)"
    by simp
qed

function doublings :: "real \<Rightarrow> nat" where
  "doublings x = (if x \<le> 0 \<or> 1 \<le> x then 0 else Suc (doublings (2 * x)))"
  by pat_completeness auto
termination
proof (relation "measure (\<lambda>x. nat \<lceil>1 / x\<rceil>)")
  show "wf (measure (\<lambda>x. nat \<lceil>1 / x\<rceil>))" by simp
next
  fix x :: real
  assume "\<not> (x \<le> 0 \<or> 1 \<le> x)"
  then have x: "0 < x" "x < 1" by simp_all
  then have y: "1 < 1 / x" by simp
  then have c: "2 \<le> \<lceil>1 / x\<rceil>" by linarith
  have "\<lceil>1 / (2 * x)\<rceil> < \<lceil>1 / x\<rceil>"
  proof (cases "1 / x \<le> 2")
    case True
    then have "1 / (2 * x) \<le> 1" using x by (simp add: field_simps)
    then have "\<lceil>1 / (2 * x)\<rceil> \<le> 1" by (simp only: ceiling_le_one)
    with c show ?thesis by linarith
  next
    case False
    then have "1 / (2 * x) \<le> 1 / x - 1" using x by (simp add: field_simps)
    then have "\<lceil>1 / (2 * x)\<rceil> \<le> \<lceil>1 / x - 1\<rceil>" by (rule ceiling_mono)
    then show ?thesis by simp
  qed
  with c have "nat \<lceil>1 / (2 * x)\<rceil> < nat \<lceil>1 / x\<rceil>"
    by linarith
  then show "(2 * x, x) \<in> measure (\<lambda>x. nat \<lceil>1 / x\<rceil>)"
    unfolding in_measure .
qed

declare halvings.simps [simp del] doublings.simps [simp del]

text \<open>
  The exponent \<open>e\<close> of a real \<open>x\<close> other than zero: \<open>2 powi e \<le> \<bar>x\<bar>\<close> and
  \<open>\<bar>x\<bar> < 2 powi (e + 1)\<close>.  It is found by halving \<open>\<bar>x\<bar>\<close> down to below 2, or by doubling
  it up to at least 1.
\<close>

definition exponent :: "real \<Rightarrow> int" where
  "exponent x = (if 1 \<le> \<bar>x\<bar> then int (halvings \<bar>x\<bar>) else - int (doublings \<bar>x\<bar>))"

definition ulp :: "real \<Rightarrow> real" where
  "ulp x = 2 powi (exponent x - 52)"

definition float64 :: "real \<Rightarrow> real" where
  "float64 x = (if x = 0 then 0 else of_int (round_half_even (x / ulp x)) * ulp x)"

definition fadd :: "real \<Rightarrow> real \<Rightarrow> real" where
  "fadd x y = float64 (x + y)"

definition fmul :: "real \<Rightarrow> real \<Rightarrow> real" where
  "fmul x y = float64 (x * y)"

definition fdiv :: "real \<Rightarrow> real \<Rightarrow> real" where
  "fdiv x y = float64 (x / y)"

text \<open>
  The sum of a column of floats: the values are added one after the other, every addition
  rounded.  The order in which pandas and numpy add the values of a column is theirs to
  choose; it is taken to be the table order.
\<close>

definition fsum :: "real list \<Rightarrow> real" where
  "fsum xs = foldl fadd 0 xs"

section \<open>Route linearizer: \<^verbatim>\<open>stops_on_route\<close>\<close>

text \<open>
  \<^verbatim>\<open>
  def stops_on_route(route,data):
      first_stop=route.split()[0]
      last_stop=route.split()[2]
      df=data[data["fw_lang"]==route]
      df=df[["halt_kurz_von1","halt_kurz_nach1"]]
      df=df.drop_duplicates(subset="halt_kurz_von1", keep="last")
      df=df.set_index("halt_kurz_von1")
      stops=[]
      current_stop=first_stop
      while current_stop!=last_stop:
          stops.append(current_stop)
          current_stop=df.loc[current_stop][0]
      return stops
  \<close>
  The \<^verbatim>\<open>while\<close> loop has no bound, so it is a partial function: where the loop runs
  forever the outcome is \<open>None\<close>.
\<close>

definition route_rows :: "string \<Rightarrow> obs list \<Rightarrow> obs list" where
  "route_rows route data = filter (\<lambda>r. fw_lang r = route) data"

definition successor_frame :: "string \<Rightarrow> obs list \<Rightarrow> (string \<times> string) list" where
  "successor_frame route data =
     drop_duplicates_last (map (\<lambda>r. (halt_kurz_von1 r, halt_kurz_nach1 r)) (route_rows route data))"

partial_function (option) follow ::
  "(string \<times> string) list \<Rightarrow> string \<Rightarrow> string \<Rightarrow> string list \<Rightarrow> (error + string list) option"
where
  "follow df last_stop current_stop stops =
     (if current_stop \<noteq> last_stop
      then (case loc df current_stop of
              Inl e \<Rightarrow> Raises e
            | Inr next_stop \<Rightarrow> follow df last_stop next_stop (stops @ [current_stop]))
      else Returns stops)"

definition stops_on_route :: "string \<Rightarrow> obs list \<Rightarrow> string list outcome" where
  "stops_on_route route data =
     (let toks = split route in
      if length toks < 3 then Raises IndexError
      else let first_stop = toks ! 0;
               last_stop = toks ! 2;
               df = successor_frame route data
           in follow df last_stop first_stop [])"

section \<open>Route selector: \<^verbatim>\<open>main_routes_of_line\<close>\<close>

text \<open>
  \<^verbatim>\<open>
  def main_routes_of_line(line,data):
      df=data[data["linie"]==line]
      return df["fw_lang"].value_counts().head(2).index.to_numpy()
  \<close>
  \<^verbatim>\<open>value_counts\<close> lists the distinct values with their counts, the most frequent first.
  The order among values of equal count is not fixed by the source: it is left to the
  sorting routine of the installed pandas and numpy.  It is the argument \<open>tie_rank\<close> of the
  functions that depend on it: of two values with the same count the one of lower rank
  comes first, and of two that also have the same rank the one that occurs first.
\<close>

definition value_counts :: "('a \<Rightarrow> nat) \<Rightarrow> 'a list \<Rightarrow> ('a \<times> nat) list" where
  "value_counts tie_rank xs =
     sort_key (\<lambda>p. (- int (snd p), tie_rank (fst p)))
       (map (\<lambda>v. (v, count_list xs v)) (rev (remdups (rev xs))))"

definition main_routes_of_line :: "(string \<Rightarrow> nat) \<Rightarrow> int \<Rightarrow> obs list \<Rightarrow> string list" where
  "main_routes_of_line tie_rank line data =
     (let df = filter (\<lambda>r. linie r = line) data
      in map fst (take 2 (value_counts tie_rank (map fw_lang df))))"

section \<open>Contribution aggregator: \<^verbatim>\<open>contributions\<close>\<close>

text \<open>
  \<^verbatim>\<open>
  def contributions(route,data):
      df=data[data["fw_lang"]==route]
      df=df[["halt_lang","halt_kurz_von1","holdup_stop","holdup_trajectory","total_holdup"]]
      conts=df.groupby(["halt_kurz_von1","halt_lang"]).mean()
      conts=conts.reset_index(level=conts.index.names)
      conts=conts.set_index(["halt_kurz_von1"])
      stops_in_order=stops_on_route(route,data)
      conts=conts.reindex(stops_in_order)
      return conts
  \<close>
  The returned frame is the list of its rows, each the index label (a stop code) with the
  columns \<^verbatim>\<open>halt_lang\<close>, \<^verbatim>\<open>holdup_stop\<close>, \<^verbatim>\<open>holdup_trajectory\<close> and \<^verbatim>\<open>total_holdup\<close>;
  \<open>None\<close> in a column is the missing value that \<^verbatim>\<open>reindex\<close> fills in.
\<close>

record cont =
  c_halt_lang :: "string option"
  c_holdup_stop :: "real option"
  c_holdup_trajectory :: "real option"
  c_total_holdup :: "real option"

definition null_row :: cont where
  "null_row = \<lparr>c_halt_lang = None, c_holdup_stop = None, c_holdup_trajectory = None,
               c_total_holdup = None\<rparr>"

fun dropna :: "'a option list \<Rightarrow> 'a list" where
  "dropna [] = []"
| "dropna (None # xs) = dropna xs"
| "dropna (Some v # xs) = v # dropna xs"

text \<open>
  The mean of a column: missing values are skipped, and a column of none is missing;
  otherwise it is the float sum of the values divided by their number.
\<close>

definition mean :: "real option list \<Rightarrow> real option" where
  "mean xs =
     (let vs = dropna xs in if vs = [] then None else Some (fdiv (fsum vs) (real (length vs))))"

text \<open>
  \<^verbatim>\<open>groupby([k1, k2]).mean()\<close>: one row for each distinct key pair, in sorted key order,
  with the column means of the rows that carry the pair.  A row with a missing key is in
  no group.
\<close>

definition group_key :: "obs \<Rightarrow> (string \<times> string) option" where
  "group_key r = map_option (\<lambda>lang. (halt_kurz_von1 r, lang)) (halt_lang r)"

definition groupby_mean :: "obs list \<Rightarrow> ((string \<times> string) \<times> real option \<times> real option \<times> real option) list" where
  "groupby_mean df =
     map (\<lambda>k. let g = filter (\<lambda>r. group_key r = Some k) df
              in (k, mean (map holdup_stop g), mean (map holdup_trajectory g),
                     mean (map total_holdup g)))
         (sort (remdups (dropna (map group_key df))))"

text \<open>
  \<^verbatim>\<open>reset_index\<close> then \<^verbatim>\<open>set_index(["halt_kurz_von1"])\<close>: the first key becomes the index
  label, the second the column \<^verbatim>\<open>halt_lang\<close>.
\<close>

definition set_index_von1 ::
  "((string \<times> string) \<times> real option \<times> real option \<times> real option) list \<Rightarrow> (string \<times> cont) list" where
  "set_index_von1 g =
     map (\<lambda>((von1, lang), (hs, ht, tot)).
            (von1, \<lparr>c_halt_lang = Some lang, c_holdup_stop = hs, c_holdup_trajectory = ht,
                     c_total_holdup = tot\<rparr>)) g"

text \<open>
  \<^verbatim>\<open>conts.reindex(target)\<close>: a frame whose index already equals the target is returned as
  it is; otherwise an index with a repeated label raises \<^verbatim>\<open>ValueError\<close> (cannot reindex
  on an axis with duplicate labels), and a unique index gives one row per target label,
  the frame's row with that label or a row of missing values.
\<close>

definition reindex :: "(string \<times> cont) list \<Rightarrow> string list \<Rightarrow> error + (string \<times> cont) list" where
  "reindex conts target =
     (if map fst conts = target then Inr conts
      else if \<not> distinct (map fst conts) then Inl ValueError
      else Inr (map (\<lambda>s. (s, case map_of conts s of None \<Rightarrow> null_row | Some row \<Rightarrow> row)) target))"

definition contributions :: "string \<Rightarrow> obs list \<Rightarrow> (string \<times> cont) list outcome" where
  "contributions route data =
     (let df = route_rows route data;
          conts = set_index_von1 (groupby_mean df)
      in and_then (stops_on_route route data) (\<lambda>stops_in_order.
           Some (reindex conts stops_in_order)))"

text \<open>
  \<^verbatim>\<open>
  def number_of_stops(route,data):
      conts=contributions(route,data)
      return len(conts)
  \<close>
\<close>

definition number_of_stops :: "string \<Rightarrow> obs list \<Rightarrow> nat outcome" where
  "number_of_stops route data =
     and_then (contributions route data) (\<lambda>conts. Returns (length conts))"

section \<open>Delay measures: \<^verbatim>\<open>delay_along_route\<close> and \<^verbatim>\<open>measure_of_delay_line\<close>\<close>

text \<open>
  \<^verbatim>\<open>
  def delay_along_route(route,data,which_holdup="total",absolute=False):
      if which_holdup=="at_stop":
          idx=0
      elif which_holdup=="on_trajectory":
          idx=1
      else:
          idx=2
      conts=contributions(route,data)
      conts=conts.drop("halt_lang",axis=1)
      if absolute:
          conts=conts.abs()
      aggs=conts.sum()[idx]
      return aggs
  \<close>
  Without \<^verbatim>\<open>halt_lang\<close> a row is the list of its three numeric columns.  \<^verbatim>\<open>sum()\<close> adds
  up each column in floats, skipping missing values.
\<close>

definition drop_halt_lang :: "(string \<times> cont) list \<Rightarrow> real option list list" where
  "drop_halt_lang conts =
     map (\<lambda>(s, row). [c_holdup_stop row, c_holdup_trajectory row, c_total_holdup row]) conts"

definition frame_abs :: "real option list list \<Rightarrow> real option list list" where
  "frame_abs rows = map (map (map_option abs)) rows"

definition frame_sum :: "real option list list \<Rightarrow> real list" where
  "frame_sum rows = map (\<lambda>j. fsum (dropna (map (\<lambda>row. row ! j) rows))) [0..<3]"

definition delay_along_route :: "string \<Rightarrow> obs list \<Rightarrow> string \<Rightarrow> bool \<Rightarrow> real outcome" where
  "delay_along_route route data which_holdup absolute =
     (let idx = (if which_holdup = ''at_stop'' then 0
                 else if which_holdup = ''on_trajectory'' then 1
                 else 2)
      in and_then (contributions route data) (\<lambda>conts.
           let conts = drop_halt_lang conts;
               conts = (if absolute then frame_abs conts else conts);
               aggs = frame_sum conts ! idx
           in Returns aggs))"

text \<open>
  \<^verbatim>\<open>
  def measure_of_delay_line(line, data, which_holdup="total",absolute=False,per_stop=True):
      measures=[]
      for route in main_routes_of_line(line,data):
          num=delay_along_route(route,data,which_holdup=which_holdup,absolute=absolute)
          den=number_of_stops(route,data)
          if per_stop:
              measures.append(num/den)
          else:
              measures.append(num)
          return sum(measures)/len(measures)
  \<close>
  \<^verbatim>\<open>num\<close> is a numpy float, so \<^verbatim>\<open>num/den\<close> with \<^verbatim>\<open>den\<close> zero is not an exception but an
  infinity or NaN; the results are the finite floats with these three values added.  The
  \<^verbatim>\<open>return\<close> stands in the loop body: the body runs for the first route and leaves the
  function.  With no route the loop body never runs and the function returns Python's
  \<^verbatim>\<open>None\<close>.
\<close>

datatype npfloat = Fin real | PosInf | NegInf | NaN

definition np_truediv :: "real \<Rightarrow> nat \<Rightarrow> npfloat" where
  "np_truediv x n =
     (if n = 0 then (if x = 0 then NaN else if 0 < x then PosInf else NegInf)
      else Fin (fdiv x (real n)))"

fun np_add :: "npfloat \<Rightarrow> npfloat \<Rightarrow> npfloat" where
  "np_add (Fin a) (Fin b) = Fin (fadd a b)"
| "np_add NaN _ = NaN"
| "np_add _ NaN = NaN"
| "np_add PosInf NegInf = NaN"
| "np_add NegInf PosInf = NaN"
| "np_add PosInf _ = PosInf"
| "np_add _ PosInf = PosInf"
| "np_add NegInf _ = NegInf"
| "np_add _ NegInf = NegInf"

fun np_div_count :: "npfloat \<Rightarrow> nat \<Rightarrow> npfloat" where
  "np_div_count (Fin x) n = np_truediv x n"
| "np_div_count v n = v"

definition py_sum :: "npfloat list \<Rightarrow> npfloat" where
  "py_sum xs = foldl np_add (Fin 0) xs"

fun measure_loop ::
  "string list \<Rightarrow> obs list \<Rightarrow> string \<Rightarrow> bool \<Rightarrow> bool \<Rightarrow> npfloat list \<Rightarrow> npfloat option outcome" where
  "measure_loop [] data which_holdup absolute per_stop measures_list = Returns None"
| "measure_loop (route # routes) data which_holdup absolute per_stop measures_list =
     and_then (delay_along_route route data which_holdup absolute) (\<lambda>num.
     and_then (number_of_stops route data) (\<lambda>den.
       let measures_list = measures_list @ [if per_stop then np_truediv num den else Fin num]
       in Returns (Some (np_div_count (py_sum measures_list) (length measures_list)))))"

definition measure_of_delay_line ::
  "(string \<Rightarrow> nat) \<Rightarrow> int \<Rightarrow> obs list \<Rightarrow> string \<Rightarrow> bool \<Rightarrow> bool \<Rightarrow> npfloat option outcome" where
  "measure_of_delay_line tie_rank line data which_holdup absolute per_stop =
     measure_loop (main_routes_of_line tie_rank line data) data which_holdup absolute per_stop []"

section \<open>Frequency of major delays: \<^verbatim>\<open>freq_major_delays_route\<close>\<close>

text \<open>
  \<^verbatim>\<open>
  def freq_major_delays_route(route,data,cutoff,per_stop=True,what="delay"):
      df=data[data["fw_lang"]==route]
      stops_on_this_route=stops_on_route(route,data)
      length_of_route=len(stops_on_this_route)
      penultimate_stop=stops_on_this_route[-2]
      df=df[df["halt_kurz"]==penultimate_stop]
      if per_stop:
          threshold=cutoff*length_of_route
      else:
          threshold=cutoff
      number_observations=len(df)
      if what=="deviation":
          df=df[(df["delay_after_trajectory"]>threshold)|(df["delay_after_trajectory"]<-threshold)]
      else:
          df=df[df["delay_after_trajectory"]>threshold]
      number_major_delays=len(df)
      percentage=(number_major_delays/number_observations)*100
      return number_observations, number_major_delays, round(percentage,2)
  \<close>
  A comparison with a missing value is false, so a row whose \<^verbatim>\<open>halt_kurz\<close> is missing
  is at no stop.  The cutoff is a float, and so are the threshold and the percentage: the
  quotient of the two counts is rounded to a float, and so is its product with 100.
  \<^verbatim>\<open>round(x, 2)\<close> takes the multiple of one hundredth nearest to the float \<open>x\<close>, a tie
  going to the even one, and returns the float nearest to it.  The two counts are Python
  integers, so the division by a zero count raises \<^verbatim>\<open>ZeroDivisionError\<close>.
\<close>

definition gt :: "real option \<Rightarrow> real \<Rightarrow> bool" where
  "gt x t = (case x of None \<Rightarrow> False | Some v \<Rightarrow> t < v)"

definition lt :: "real option \<Rightarrow> real \<Rightarrow> bool" where
  "lt x t = (case x of None \<Rightarrow> False | Some v \<Rightarrow> v < t)"

definition py_round :: "real \<Rightarrow> nat \<Rightarrow> real" where
  "py_round x ndigits = float64 (of_int (round_half_even (x * 10 ^ ndigits)) / 10 ^ ndigits)"

definition freq_major_delays_route ::
  "string \<Rightarrow> obs list \<Rightarrow> real \<Rightarrow> bool \<Rightarrow> string \<Rightarrow> (nat \<times> nat \<times> real) outcome" where
  "freq_major_delays_route route data cutoff per_stop what =
     (let df = route_rows route data
      in and_then (stops_on_route route data) (\<lambda>stops_on_this_route.
           let length_of_route = length stops_on_this_route
           in if length_of_route < 2 then Raises IndexError
              else
                let penultimate_stop = stops_on_this_route ! (length_of_route - 2);
                    df = filter (\<lambda>r. halt_kurz r = Some penultimate_stop) df;
                    threshold = (if per_stop then fmul cutoff (real length_of_route) else cutoff);
                    number_observations = length df;
                    df = (if what = ''deviation''
                          then filter (\<lambda>r. gt (delay_after_trajectory r) threshold \<or>
                                           lt (delay_after_trajectory r) (- threshold)) df
                          else filter (\<lambda>r. gt (delay_after_trajectory r) threshold) df);
                    number_major_delays = length df
                in if number_observations = 0 then Raises ZeroDivisionError
                   else
                     let percentage =
                           fmul (fdiv (real number_major_delays) (real number_observations)) 100
                     in Returns (number_observations, number_major_delays, py_round percentage 2)))"

section \<open>Stop name resolver: \<^verbatim>\<open>convert_short_to_long\<close>\<close>

text \<open>
  \<^verbatim>\<open>
  def convert_short_to_long(name,data):
      stops=data[["halt_lang","halt_kurz"]]
      stops=stops.reset_index(drop=True).set_index("halt_kurz")
      stops=stops["halt_lang"].str.replace("Z\"urich, ","").str.replace("Z\"urich,","")
      stops=stops.drop_duplicates()
      return stops.loc[name]
  \<close>
  (the city name is written with u-umlaut in the source).  \<^verbatim>\<open>str.replace(old, new)\<close>
  replaces the occurrences of \<open>old\<close> found from left to right, none overlapping another;
  an empty \<open>old\<close> matches before every character and at the end; \<^verbatim>\<open>.str.replace\<close> leaves
  a missing value missing.  A series is the list of its (label, value) rows.
  \<^verbatim>\<open>drop_duplicates()\<close> on a series keeps the first row of every value.  \<^verbatim>\<open>loc[name]\<close> is
  the value when one row carries the label, the series of the values when several do, and
  raises \<^verbatim>\<open>KeyError\<close> when none does.
\<close>

function scan_replace :: "string \<Rightarrow> string \<Rightarrow> string \<Rightarrow> string" where
  "scan_replace old new s =
     (if old = [] \<or> s = [] then s
      else if take (length old) s = old then new @ scan_replace old new (drop (length old) s)
      else hd s # scan_replace old new (tl s))"
  by pat_completeness auto
termination
  by (relation "measure (\<lambda>(old, new, s). length s)") auto

declare scan_replace.simps [simp del]

definition str_replace :: "string \<Rightarrow> string \<Rightarrow> string \<Rightarrow> string" where
  "str_replace old new s =
     (if old = [] then new @ concat (map (\<lambda>c. c # new) s) else scan_replace old new s)"

definition city_space :: string where
  "city_space = [CHR ''Z'', CHR 0xFC] @ ''rich, ''"

definition city :: string where
  "city = [CHR ''Z'', CHR 0xFC] @ ''rich,''"

fun drop_duplicates_values :: "'v list \<Rightarrow> ('k \<times> 'v) list \<Rightarrow> ('k \<times> 'v) list" where
  "drop_duplicates_values seen [] = []"
| "drop_duplicates_values seen (r # rs) =
     (if snd r \<in> set seen then drop_duplicates_values seen rs
      else r # drop_duplicates_values (snd r # seen) rs)"

datatype loc_result = Scalar "string option" | Series "string option list"

definition loc_series ::
  "(string option \<times> string option) list \<Rightarrow> string \<Rightarrow> error + loc_result" where
  "loc_series series name =
     (case map snd (filter (\<lambda>kv. fst kv = Some name) series) of
        [] \<Rightarrow> Inl (KeyError name)
      | [v] \<Rightarrow> Inr (Scalar v)
      | vs \<Rightarrow> Inr (Series vs))"

definition convert_short_to_long :: "string \<Rightarrow> obs list \<Rightarrow> error + loc_result" where
  "convert_short_to_long name data =
     (let stops = map (\<lambda>r. (halt_kurz r, halt_lang r)) data;
          stops = map (\<lambda>(k, v). (k, map_option (str_replace city []) (map_option (str_replace city_space []) v))) stops;
          stops = drop_duplicates_values [] stops
      in loc_series stops name)"

text \<open>
  \<^verbatim>\<open>func_defs.py\<close> has the resolver on the stop table \<^verbatim>\<open>stops\<close> (columns
  \<^verbatim>\<open>halt_kurz\<close>, \<^verbatim>\<open>halt_lang\<close>), without the \<^verbatim>\<open>drop_duplicates\<close> step:
  \<^verbatim>\<open>
  def convert_short_to_long(name,stops):
      stops=stops.reset_index(drop=True).set_index("halt_kurz")
      stops=stops["halt_lang"].str.replace("Z\"urich, ","").str.replace("Z\"urich,","")
      return stops.loc[name]
  \<close>
\<close>

definition convert_short_to_long_stops ::
  "string \<Rightarrow> (string option \<times> string option) list \<Rightarrow> error + loc_result" where
  "convert_short_to_long_stops name stops =
     (let stops = map (\<lambda>(k, v). (k, map_option (str_replace city []) (map_option (str_replace city_space []) v))) stops
      in loc_series stops name)"


section \<open>Notions the claims are stated with\<close>

text \<open>
  The successor mapping of a route as the specification words it: every observation of
  the route, in table order, writes its destination stop under its origin stop, so the
  last occurrence of an origin stop wins.
\<close>

definition successor_map :: "string \<Rightarrow> obs list \<Rightarrow> (string \<rightharpoonup> string)" where
  "successor_map route data =
     fold (\<lambda>r m. m(halt_kurz_von1 r \<mapsto> halt_kurz_nach1 r)) (route_rows route data) Map.empty"

text \<open>
  \<open>chain succ last_stop cur stops\<close>: \<open>stops\<close> is the walk that starts at \<open>cur\<close>, follows
  \<open>succ\<close> from each stop to the next, and whose last stop has \<open>last_stop\<close> as its
  successor; \<open>last_stop\<close> itself is not on it.
\<close>

fun chain :: "(string \<rightharpoonup> string) \<Rightarrow> string \<Rightarrow> string \<Rightarrow> string list \<Rightarrow> bool" where
  "chain succ last_stop cur [] = (cur = last_stop)"
| "chain succ last_stop cur (s # ss) =
     (s = cur \<and> cur \<noteq> last_stop \<and>
      (case succ cur of None \<Rightarrow> False | Some nxt \<Rightarrow> chain succ last_stop nxt ss))"

text \<open>
  \<open>visits succ last_stop cur s\<close>: the walk from \<open>cur\<close> comes to the stop \<open>s\<close> before it
  comes to \<open>last_stop\<close>.
\<close>

inductive visits :: "(string \<rightharpoonup> string) \<Rightarrow> string \<Rightarrow> string \<Rightarrow> string \<Rightarrow> bool"
  for succ :: "string \<rightharpoonup> string" and last_stop :: string
where
  visits_here: "cur \<noteq> last_stop \<Longrightarrow> visits succ last_stop cur cur"
| visits_step: "cur \<noteq> last_stop \<Longrightarrow> succ cur = Some nxt \<Longrightarrow> visits succ last_stop nxt s
     \<Longrightarrow> visits succ last_stop cur s"

definition starts_with :: "string list outcome \<Rightarrow> string \<Rightarrow> bool" where
  "starts_with res a = (case res of Some (Inr (s # _)) \<Rightarrow> s = a | _ \<Rightarrow> False)"

text \<open>
  The row of a stop in the table of \<^verbatim>\<open>contributions\<close>, written from the observations: the
  observations of the route at the stop that carry a long name give the name and the three
  means; a stop with no such observation has the row of missing values.
\<close>

definition named_rows :: "obs list \<Rightarrow> string \<Rightarrow> obs list" where
  "named_rows df s = filter (\<lambda>r. halt_kurz_von1 r = s \<and> halt_lang r \<noteq> None) df"

definition stop_row :: "obs list \<Rightarrow> string \<Rightarrow> cont" where
  "stop_row df s =
     (case named_rows df s of
        [] \<Rightarrow> null_row
      | r # rs \<Rightarrow>
          \<lparr>c_halt_lang = halt_lang r,
           c_holdup_stop = mean (map holdup_stop (r # rs)),
           c_holdup_trajectory = mean (map holdup_trajectory (r # rs)),
           c_total_holdup = mean (map total_holdup (r # rs))\<rparr>)"

text \<open>Every stop code comes with at most one long name among the rows.\<close>

definition single_named :: "obs list \<Rightarrow> bool" where
  "single_named df =
     (\<forall>r1 \<in> set df. \<forall>r2 \<in> set df.
        halt_kurz_von1 r1 = halt_kurz_von1 r2 \<and> halt_lang r1 \<noteq> None \<and> halt_lang r2 \<noteq> None
          \<longrightarrow> halt_lang r1 = halt_lang r2)"

text \<open>The column of the table that \<^verbatim>\<open>which_holdup\<close> selects.\<close>

definition holdup_column :: "string \<Rightarrow> cont \<Rightarrow> real option" where
  "holdup_column which_holdup =
     (if which_holdup = ''at_stop'' then c_holdup_stop
      else if which_holdup = ''on_trajectory'' then c_holdup_trajectory
      else c_total_holdup)"

text \<open>
  The table with the absolute value taken of every raw holdup: the delay along a route of
  this table, not in absolute mode, sums the per-stop averages of the absolute values
  (abs-then-mean).
\<close>

definition abs_holdups :: "obs \<Rightarrow> obs" where
  "abs_holdups r =
     r\<lparr>holdup_stop := map_option abs (holdup_stop r),
       holdup_trajectory := map_option abs (holdup_trajectory r),
       total_holdup := map_option abs (total_holdup r)\<rparr>"

text \<open>
  Row-wise, the total holdup is the sum of the holdup at the stop and the holdup on the
  trajectory: an equation between floats, with the float sum on its right (it holds only
  where none of the three is missing).
\<close>

definition total_is_sum :: "obs \<Rightarrow> bool" where
  "total_is_sum r =
     (case (holdup_stop r, holdup_trajectory r, total_holdup r) of
        (Some a, Some b, Some c) \<Rightarrow> c = fadd a b
      | _ \<Rightarrow> False)"

text \<open>
  The relative error that \<open>k\<close> float operations in a row can build up, each of them
  rounding by at most one part in \<open>2 ^ 53\<close>: about \<open>k\<close> times \<open>1.1e-16\<close>.
\<close>

definition rounding_bound :: "nat \<Rightarrow> real" where
  "rounding_bound k = (1 + 1 / 2 ^ 53) ^ k - 1"

text \<open>
  An ordinary float: a float that is zero or of a magnitude from \<open>2 powi (- 500)\<close> to
  \<open>2 powi 500\<close>.  With ordinary holdups, and no more than \<open>2 ^ 50\<close> of them, no sum
  and no mean of \<^verbatim>\<open>delay_along_route\<close> overflows, and none is rounded among the
  subnormal numbers.
\<close>

definition ordinary :: "real \<Rightarrow> bool" where
  "ordinary x \<longleftrightarrow> float64 x = x \<and> (x = 0 \<or> 1 / 2 ^ 500 \<le> \<bar>x\<bar> \<and> \<bar>x\<bar> \<le> 2 ^ 500)"

definition ordinary_holdups :: "obs \<Rightarrow> bool" where
  "ordinary_holdups r =
     (case (holdup_stop r, holdup_trajectory r) of
        (Some a, Some b) \<Rightarrow> ordinary a \<and> ordinary b
      | _ \<Rightarrow> False)"

text \<open>
  The size of the raw holdups of an observation, and the tolerance of the additivity of
  \<^verbatim>\<open>delay_along_route\<close> on a route with \<open>n\<close> observations: \<open>n + 1\<close> times the size of
  all the raw holdups of the route, over \<open>2 ^ 50\<close>.
\<close>

definition holdup_size :: "obs \<Rightarrow> real" where
  "holdup_size r =
     (case holdup_stop r of None \<Rightarrow> 0 | Some a \<Rightarrow> \<bar>a\<bar>) +
     (case holdup_trajectory r of None \<Rightarrow> 0 | Some b \<Rightarrow> \<bar>b\<bar>)"

definition additivity_tolerance :: "string \<Rightarrow> obs list \<Rightarrow> real" where
  "additivity_tolerance route data =
     (let rows = route_rows route data
      in real (length rows + 1) * sum_list (map holdup_size rows) / 2 ^ 50)"

text \<open>
  The observations of a route taken at a stop, and when one of them is major: its delay
  after the trajectory exceeds the threshold, in absolute value in deviation mode.
\<close>

definition observed_at :: "string \<Rightarrow> obs list \<Rightarrow> string \<Rightarrow> obs list" where
  "observed_at route data stop =
     filter (\<lambda>r. fw_lang r = route \<and> halt_kurz r = Some stop) data"

definition is_major :: "string \<Rightarrow> real \<Rightarrow> obs \<Rightarrow> bool" where
  "is_major what threshold r =
     (case delay_after_trajectory r of
        None \<Rightarrow> False
      | Some d \<Rightarrow> if what = ''deviation'' then threshold < \<bar>d\<bar> else threshold < d)"

text \<open>
  What the resolver does to a long name: both replacements, the city name with the blank
  first.  \<open>occurs old s\<close>: the string \<open>old\<close> occurs in \<open>s\<close>.  \<open>owns_name name data n\<close>: the
  first row of the table whose long name, the replacements done, is \<open>n\<close> carries the
  short code \<open>name\<close>.
\<close>

definition strip_city :: "string \<Rightarrow> string" where
  "strip_city long = str_replace city [] (str_replace city_space [] long)"

fun occurs :: "string \<Rightarrow> string \<Rightarrow> bool" where
  "occurs old [] = (old = [])"
| "occurs old (c # cs) = (take (length old) (c # cs) = old \<or> occurs old cs)"


text \<open>A row of the series the resolver looks the code up in: the code and the cleaned name.\<close>

definition cleaned :: "obs \<Rightarrow> string option \<times> string option" where
  "cleaned r = (halt_kurz r, map_option strip_city (halt_lang r))"

section \<open>Example tables\<close>

text \<open>
  One observation of a tram at \<open>stop\<close> on its way to \<open>next_stop\<close>, with the holdup at
  the stop, the holdup on the trajectory and the delay after the trajectory; the total
  holdup is the sum of the two holdups.
\<close>

definition trip :: "string \<Rightarrow> string \<Rightarrow> string \<Rightarrow> real \<Rightarrow> real \<Rightarrow> real \<Rightarrow> obs" where
  "trip route stop next_stop at_stop on_traj delay =
     \<lparr>linie = 10, fw_lang = route, halt_kurz = Some stop,
      halt_lang = Some (''Stop '' @ stop),
      halt_kurz_von1 = stop, halt_kurz_nach1 = next_stop,
      holdup_stop = Some at_stop, holdup_trajectory = Some on_traj,
      total_holdup = Some (at_stop + on_traj), delay_after_trajectory = Some delay\<rparr>"

definition example_trips :: "obs list" where
  "example_trips =
     [trip ''A - D'' ''A'' ''X'' 2 1 3,
      trip ''D - A'' ''D'' ''C'' 0 0 0,
      trip ''A - D'' ''A'' ''B'' 4 (-1) 3,
      trip ''A - D'' ''B'' ''C'' 1 1 5,
      trip ''A - D'' ''C'' ''D'' (-2) 0 3,
      trip ''A - D'' ''B'' ''C'' 3 (-5) 1,
      trip ''A - D'' ''B'' ''C'' 2 1 (-20)]"

text \<open>
  A route of one stop before the final one, with three observations whose holdups at the
  stop add up to 1 and whose holdups on the trajectory add up to -3.
\<close>

definition thirds_trips :: "obs list" where
  "thirds_trips =
     [trip ''A - B'' ''A'' ''B'' 1 (-1) 0,
      trip ''A - B'' ''A'' ''B'' 0 (-1) 0,
      trip ''A - B'' ''A'' ''B'' 0 (-1) 0]"

text \<open>
  The route from \<open>A\<close> over \<open>B\<close> and \<open>C\<close> to \<open>D\<close> with 160 observations at \<open>B\<close>, 23 of
  them with a delay of 10 seconds after the trajectory and the others with none.
\<close>

definition crowd_trips :: "obs list" where
  "crowd_trips =
     trip ''A - D'' ''A'' ''B'' 0 0 0 #
     replicate 23 (trip ''A - D'' ''B'' ''C'' 0 0 10) @
     replicate 137 (trip ''A - D'' ''B'' ''C'' 0 0 0) @
     [trip ''A - D'' ''C'' ''D'' 0 0 0]"

text \<open>A line whose two route labels are observed equally often.\<close>

definition tied_trips :: "obs list" where
  "tied_trips =
     [trip ''A - D'' ''A'' ''D'' 0 0 0,
      trip ''D - A'' ''D'' ''A'' 0 0 0]"

definition cyclic_trips :: "obs list" where
  "cyclic_trips =
     [trip ''A - D'' ''A'' ''B'' 0 0 0,
      trip ''A - D'' ''B'' ''C'' 0 0 0,
      trip ''A - D'' ''C'' ''B'' 0 0 0]"

definition broken_trips :: "obs list" where
  "broken_trips =
     [trip ''A - D'' ''A'' ''B'' 0 0 0,
      trip ''A - D'' ''B'' ''C'' 0 0 0]"

definition loop_trips :: "obs list" where
  "loop_trips =
     [trip ''A - A'' ''A'' ''B'' 0 0 0,
      trip ''A - A'' ''B'' ''A'' 0 0 0]"

definition self_loop_trips :: "obs list" where
  "self_loop_trips = [trip ''A - D'' ''A'' ''A'' 0 0 0]"

text \<open>A table in which the stop \<open>B\<close> has no metadata, so its long name is missing.\<close>

definition unnamed_trips :: "obs list" where
  "unnamed_trips =
     [trip ''A - D'' ''A'' ''B'' 1 2 0,
      (trip ''A - D'' ''B'' ''C'' 5 5 0)\<lparr>halt_kurz := None, halt_lang := None\<rparr>,
      trip ''A - D'' ''C'' ''D'' 3 4 0]"

text \<open>Rows that carry the stop metadata: a short code and its long name.\<close>

definition stop_entry :: "string \<Rightarrow> string \<Rightarrow> obs" where
  "stop_entry code long =
     (trip ''A - D'' code code 0 0 0)\<lparr>halt_kurz := Some code, halt_lang := Some long\<rparr>"



text \<open>Two stops whose long names are the same once the city name is taken away.\<close>

definition shared_name_stops :: "obs list" where
  "shared_name_stops =
     [stop_entry ''A1'' (city_space @ ''Depot''),
      stop_entry ''A2'' ''Depot'']"

section \<open>The successor frame is the last-write-wins mapping\<close>

lemma map_of_drop_duplicates_last:
  "map_of (drop_duplicates_last kvs) k = map_of (rev kvs) k"
proof (induction kvs)
  case Nil
  show ?case by simp
next
  case (Cons r rs)
  have none: "(map_of (rev rs) x = None) = (x \<notin> fst ` set rs)" for x
    by (simp add: map_of_eq_None_iff)
  show ?case
  proof (cases "fst r \<in> fst ` set rs")
    case True
    with none [of "fst r"] obtain v where "map_of (rev rs) (fst r) = Some v"
      by auto
    with True Cons.IH show ?thesis
      by (cases r) (simp add: map_add_def split: option.splits)
  next
    case False
    with none [of "fst r"] have "map_of (rev rs) (fst r) = None"
      by simp
    with False Cons.IH show ?thesis
      by (cases r) (simp add: map_add_def split: option.splits)
  qed
qed

lemma fold_upd_map_of:
  "fold (\<lambda>r m. m(f r \<mapsto> g r)) rows m0 = m0 ++ map_of (rev (map (\<lambda>r. (f r, g r)) rows))"
  by (induction rows arbitrary: m0) (simp_all add: map_add_upd_left)

lemma map_of_successor_frame:
  "map_of (successor_frame route data) = successor_map route data"
  by (rule ext) (simp add: successor_frame_def successor_map_def map_of_drop_duplicates_last fold_upd_map_of)

section \<open>The walk of \<^verbatim>\<open>stops_on_route\<close>\<close>

lemma follow_chain:
  "chain (map_of df) last_stop cur new \<Longrightarrow> follow df last_stop cur acc = Returns (acc @ new)"
proof (induction new arbitrary: cur acc)
  case Nil
  then show ?case by (simp add: follow.simps)
next
  case (Cons s ss)
  then obtain nxt where s: "s = cur" "cur \<noteq> last_stop" "map_of df cur = Some nxt"
      and rest: "chain (map_of df) last_stop nxt ss"
    by (auto split: option.splits)
  from Cons.IH [OF rest, of "acc @ [cur]"] s show ?case
    by (subst follow.simps) (simp add: loc_def)
qed

lemma follow_returns_chain:
  assumes "follow df last_stop cur acc = Some y"
  shows "\<forall>stops. y = Inr stops \<longrightarrow>
           (\<exists>new. stops = acc @ new \<and> chain (map_of df) last_stop cur new)"
proof (rule follow.raw_induct
    [where P = "\<lambda>df last_stop cur acc y. \<forall>stops. y = Inr stops \<longrightarrow>
           (\<exists>new. stops = acc @ new \<and> chain (map_of df) last_stop cur new)", OF _ assms])
  fix follow' df last_stop cur acc y
  assume IH: "\<And>df last_stop cur acc y. follow' df last_stop cur acc = Some y \<Longrightarrow>
           \<forall>stops. y = Inr stops \<longrightarrow>
             (\<exists>new. stops = acc @ new \<and> chain (map_of df) last_stop cur new)"
    and body: "(if cur \<noteq> last_stop
          then case loc df cur of Inl e \<Rightarrow> Raises e
               | Inr next_stop \<Rightarrow> follow' df last_stop next_stop (acc @ [cur])
          else Returns acc) = Some y"
  show "\<forall>stops. y = Inr stops \<longrightarrow>
           (\<exists>new. stops = acc @ new \<and> chain (map_of df) last_stop cur new)"
  proof (intro allI impI)
    fix stops assume y: "y = Inr stops"
    show "\<exists>new. stops = acc @ new \<and> chain (map_of df) last_stop cur new"
    proof (cases "cur = last_stop")
      case True
      with body y show ?thesis by simp
    next
      case False
      show ?thesis
      proof (cases "map_of df cur")
        case None
        with False body y show ?thesis by (simp add: loc_def)
      next
        case (Some nxt)
        with False body have "follow' df last_stop nxt (acc @ [cur]) = Some y"
          by (simp add: loc_def)
        from IH [OF this] y obtain new where
          "stops = (acc @ [cur]) @ new" "chain (map_of df) last_stop nxt new"
          by blast
        with False Some
        have "stops = acc @ (cur # new) \<and> chain (map_of df) last_stop cur (cur # new)"
          by simp
        then show ?thesis by blast
      qed
    qed
  qed
qed

lemma follow_Returns_iff:
  "follow df last_stop cur acc = Returns stops \<longleftrightarrow>
     (\<exists>new. stops = acc @ new \<and> chain (map_of df) last_stop cur new)"
  using follow_returns_chain [of df last_stop cur acc "Inr stops"] follow_chain [of df last_stop cur _ acc]
  by auto

lemma chain_not_last: "chain f l c xs \<Longrightarrow> l \<notin> set xs"
  by (induction xs arbitrary: c) (auto split: option.splits)

lemma chain_hd: "chain f l c xs \<Longrightarrow> xs \<noteq> [] \<Longrightarrow> hd xs = c"
  by (cases xs) auto

lemma chain_empty_iff: "chain f l c xs \<Longrightarrow> (xs = []) = (c = l)"
  by (cases xs) auto

lemma chain_last: "chain f l c xs \<Longrightarrow> xs \<noteq> [] \<Longrightarrow> f (last xs) = Some l"
proof (induction xs arbitrary: c)
  case Nil
  then show ?case by simp
next
  case (Cons s ss)
  then obtain nxt where n: "f c = Some nxt" "chain f l nxt ss" "s = c"
    by (auto split: option.splits)
  show ?case
  proof (cases ss)
    case Nil
    with n show ?thesis by simp
  next
    case (Cons t ts)
    with Cons.IH [OF n(2)] show ?thesis by simp
  qed
qed

lemma chain_nth:
  "chain f l c xs \<Longrightarrow> Suc i < length xs \<Longrightarrow> f (xs ! i) = Some (xs ! Suc i)"
proof (induction xs arbitrary: c i)
  case Nil
  then show ?case by simp
next
  case (Cons s ss)
  then obtain nxt where n: "f c = Some nxt" "chain f l nxt ss" "s = c"
    by (auto split: option.splits)
  from Cons.prems(2) have "ss \<noteq> []" by auto
  with chain_hd [OF n(2)] have hd: "ss ! 0 = nxt"
    by (simp add: hd_conv_nth)
  show ?case
  proof (cases i)
    case 0
    with n hd show ?thesis by simp
  next
    case (Suc j)
    with Cons.prems(2) have "Suc j < length ss" by simp
    from Cons.IH [OF n(2) this] Suc show ?thesis by simp
  qed
qed

lemma chain_intro:
  "xs \<noteq> [] \<Longrightarrow> hd xs = c \<Longrightarrow> l \<notin> set xs \<Longrightarrow>
   (\<forall>i. Suc i < length xs \<longrightarrow> f (xs ! i) = Some (xs ! Suc i)) \<Longrightarrow>
   f (last xs) = Some l \<Longrightarrow> chain f l c xs"
proof (induction xs arbitrary: c)
  case Nil
  then show ?case by simp
next
  case (Cons s ss)
  show ?case
  proof (cases ss)
    case Nil
    with Cons.prems show ?thesis by auto
  next
    case (Cons t ts)
    from Cons.prems(4) have step: "\<forall>i. Suc i < length ss \<longrightarrow> f (ss ! i) = Some (ss ! Suc i)"
      by (metis Suc_less_eq length_Cons nth_Cons_Suc)
    from Cons.prems(4) [rule_format, of 0] Cons have first: "f s = Some t"
      by simp
    have "chain f l t ss"
      using Cons.IH [of t] Cons.prems(3,5) step Cons by simp
    with first Cons.prems(2,3) show ?thesis by auto
  qed
qed

lemma chain_unique: "chain f l c xs \<Longrightarrow> chain f l c ys \<Longrightarrow> xs = ys"
proof (induction xs arbitrary: c ys)
  case Nil
  then show ?case by (cases ys) auto
next
  case (Cons s ss)
  then show ?case by (cases ys) (auto split: option.splits)
qed

lemma chain_suffix:
  "chain f l c (pre @ s # post) \<Longrightarrow> chain f l s (s # post)"
proof (induction pre arbitrary: c)
  case Nil
  then show ?case by simp
next
  case (Cons p ps)
  from Cons.prems obtain nxt where "chain f l nxt (ps @ s # post)"
    by (auto split: option.splits)
  then show ?case by (rule Cons.IH)
qed

lemma chain_distinct: "chain f l c xs \<Longrightarrow> distinct xs"
proof (induction xs arbitrary: c)
  case Nil
  show ?case by simp
next
  case (Cons s ss)
  then obtain nxt where n: "f c = Some nxt" "chain f l nxt ss" "s = c"
    by (auto split: option.splits)
  have "s \<notin> set ss"
  proof
    assume "s \<in> set ss"
    then obtain pre post where ss: "ss = pre @ s # post"
      by (auto simp: in_set_conv_decomp)
    with n(2) have "chain f l s (s # post)"
      by (auto dest: chain_suffix)
    moreover from Cons.prems n(3) have "chain f l s (s # ss)"
      by simp
    ultimately have "s # post = s # ss"
      by (rule chain_unique)
    with ss show False by simp
  qed
  with Cons.IH [OF n(2)] show ?case by simp
qed

lemma follow_missing:
  "visits (map_of df) last_stop cur s \<Longrightarrow> map_of df s = None \<Longrightarrow>
     follow df last_stop cur acc = Raises (KeyError s)"
proof (induction arbitrary: acc rule: visits.induct)
  case (visits_here cur)
  then show ?case by (subst follow.simps) (simp add: loc_def)
next
  case (visits_step cur nxt s)
  from visits_step.IH [OF visits_step.prems, of "acc @ [cur]"] visits_step.hyps(1,2)
  show ?case by (subst follow.simps) (simp add: loc_def)
qed

lemma visits_closed:
  assumes cyc: "f s = Some t" "visits f l t s"
    and c: "visits f l c s"
  shows "c \<noteq> l \<and> (\<exists>nxt. f c = Some nxt \<and> visits f l nxt s)"
  using c cyc by (induction rule: visits.induct) auto

lemma follow_cycle_aux:
  assumes cyc: "map_of df s = Some t" "visits (map_of df) last_stop t s"
    and run: "follow df0 last0 cur acc = Some y"
  shows "df0 = df \<and> last0 = last_stop \<longrightarrow> \<not> visits (map_of df) last_stop cur s"
proof (rule follow.raw_induct
    [where P = "\<lambda>df0 last0 cur acc y. df0 = df \<and> last0 = last_stop \<longrightarrow>
        \<not> visits (map_of df) last_stop cur s", OF _ run])
  fix follow' df0 last0 cur acc y
  assume IH: "\<And>df0 last0 cur acc y. follow' df0 last0 cur acc = Some y \<Longrightarrow>
        df0 = df \<and> last0 = last_stop \<longrightarrow> \<not> visits (map_of df) last_stop cur s"
    and body: "(if cur \<noteq> last0
          then case loc df0 cur of Inl e \<Rightarrow> Raises e
               | Inr next_stop \<Rightarrow> follow' df0 last0 next_stop (acc @ [cur])
          else Returns acc) = Some y"
  show "df0 = df \<and> last0 = last_stop \<longrightarrow> \<not> visits (map_of df) last_stop cur s"
  proof (intro impI notI)
    assume eq: "df0 = df \<and> last0 = last_stop" and v: "visits (map_of df) last_stop cur s"
    from visits_closed [OF cyc v] obtain nxt where
      n: "cur \<noteq> last_stop" "map_of df cur = Some nxt" "visits (map_of df) last_stop nxt s"
      by blast
    with body eq have "follow' df last_stop nxt (acc @ [cur]) = Some y"
      by (simp add: loc_def)
    from IH [OF this] n(3) show False by simp
  qed
qed

lemma follow_cycle:
  assumes "visits (map_of df) last_stop cur s" "map_of df s = Some t"
    "visits (map_of df) last_stop t s"
  shows "follow df last_stop cur acc = Hangs"
proof (cases "follow df last_stop cur acc")
  case None
  then show ?thesis .
next
  case (Some y)
  from follow_cycle_aux [OF assms(2,3) Some] assms(1) show ?thesis by simp
qed

lemma stops_on_route_eq_follow:
  "3 \<le> length (split route) \<Longrightarrow>
     stops_on_route route data =
       follow (successor_frame route data) (split route ! 2) (split route ! 0) []"
  by (simp add: stops_on_route_def Let_def)

lemma stops_on_route_Returns_iff:
  "3 \<le> length (split route) \<Longrightarrow>
     stops_on_route route data = Returns stops \<longleftrightarrow>
       chain (successor_map route data) (split route ! 2) (split route ! 0) stops"
  by (simp add: stops_on_route_eq_follow follow_Returns_iff map_of_successor_frame)

lemma stops_on_route_short_label:
  "length (split route) < 3 \<Longrightarrow> stops_on_route route data = Raises IndexError"
  by (simp add: stops_on_route_def Let_def)

lemma stops_on_route_Returns_label:
  "stops_on_route route data = Returns stops \<Longrightarrow> 3 \<le> length (split route)"
  by (rule ccontr) (simp add: stops_on_route_def Let_def)

lemma stops_on_route_chain:
  assumes "stops_on_route route data = Returns stops"
  shows "chain (successor_map route data) (split route ! 2) (split route ! 0) stops"
proof -
  from assms have "3 \<le> length (split route)"
    by (rule stops_on_route_Returns_label)
  with assms show ?thesis
    by (simp add: stops_on_route_Returns_iff)
qed

lemma split_AD: "split ''A - D'' = [''A'', ''-'', ''D'']"
  by (simp add: split_def whitespace_def)

lemma example_successors:
  "successor_map ''A - D'' example_trips ''A'' = Some ''B''"
  "successor_map ''A - D'' example_trips ''B'' = Some ''C''"
  "successor_map ''A - D'' example_trips ''C'' = Some ''D''"
  by (simp_all add: successor_map_def route_rows_def trip_def example_trips_def)

lemma split_AA: "split ''A - A'' = [''A'', ''-'', ''A'']"
  by (simp add: split_def whitespace_def)

lemma example_stops:
  "stops_on_route ''A - D'' example_trips = Returns [''A'', ''B'', ''C'']"
  by (simp add: stops_on_route_Returns_iff split_AD example_successors)

section \<open>Claims about the route linearizer\<close>

text \<open>
  C1 (as amended).  Let the route label have at least three whitespace-delimited tokens,
  \<open>A\<close> the first and \<open>B\<close> the third.  Then \<^verbatim>\<open>stops_on_route\<close> returns the sequence
  \<open>stops\<close> exactly when: for \<open>A = B\<close>, \<open>stops\<close> is empty; for \<open>A \<noteq> B\<close>, \<open>stops\<close> starts
  with \<open>A\<close>, never contains \<open>B\<close>, every element but the last has the next element as its
  successor under the last-occurrence-wins mapping of the route's observations, and the
  last element has \<open>B\<close> as its successor.  So whenever such a walk exists the call
  returns it, and whatever the call returns is such a walk.
\<close>

theorem stops_on_route_linearizes:
  assumes "3 \<le> length (split route)"
    and "A = split route ! 0" and "B = split route ! 2"
  shows "stops_on_route route data = Returns stops \<longleftrightarrow>
     (if A = B then stops = []
      else stops \<noteq> [] \<and> hd stops = A \<and> B \<notin> set stops \<and>
           (\<forall>i. Suc i < length stops \<longrightarrow>
                successor_map route data (stops ! i) = Some (stops ! Suc i)) \<and>
           successor_map route data (last stops) = Some B)"
proof -
  let ?f = "successor_map route data"
  have iff: "stops_on_route route data = Returns stops \<longleftrightarrow> chain ?f B A stops"
    using assms by (simp add: stops_on_route_Returns_iff)
  show ?thesis
  proof (cases "A = B")
    case True
    have "chain ?f B B stops \<longleftrightarrow> stops = []"
      by (cases stops) auto
    with True iff show ?thesis by simp
  next
    case False
    have "chain ?f B A stops \<longleftrightarrow>
        stops \<noteq> [] \<and> hd stops = A \<and> B \<notin> set stops \<and>
        (\<forall>i. Suc i < length stops \<longrightarrow> ?f (stops ! i) = Some (stops ! Suc i)) \<and>
        ?f (last stops) = Some B"
      (is "?l \<longleftrightarrow> ?r")
    proof
      assume c: ?l
      with False have ne: "stops \<noteq> []"
        by (auto dest: chain_empty_iff)
      from c ne show ?r
        by (simp add: chain_hd chain_not_last chain_nth chain_last)
    next
      assume ?r
      then show ?l by (simp add: chain_intro)
    qed
    with False iff show ?thesis by simp
  qed
qed

theorem stops_on_route_linearizes_witness:
  "stops_on_route ''A - D'' example_trips = Returns [''A'', ''B'', ''C''] \<and>
   successor_map ''A - D'' example_trips ''A'' = Some ''B''"
proof -
  let ?stops = "[''A'', ''B'', ''C'']"
  have links: "\<forall>i. Suc i < length ?stops \<longrightarrow>
      successor_map ''A - D'' example_trips (?stops ! i) = Some (?stops ! Suc i)"
  proof (intro allI impI)
    fix i :: nat assume "Suc i < length ?stops"
    then have "i = 0 \<or> i = 1" by auto
    then show "successor_map ''A - D'' example_trips (?stops ! i) = Some (?stops ! Suc i)"
      by (auto simp: example_successors)
  qed
  have label: "3 \<le> length (split ''A - D'')" "''A'' = split ''A - D'' ! 0" "''D'' = split ''A - D'' ! 2"
    by (simp_all add: split_AD)
  have ends: "?stops \<noteq> []" "hd ?stops = ''A''" "''D'' \<notin> set ?stops"
    "successor_map ''A - D'' example_trips (last ?stops) = Some ''D''" "''A'' \<noteq> ''D''"
    by (simp_all add: example_successors)
  from stops_on_route_linearizes [OF label, of example_trips ?stops] ends links
  have "stops_on_route ''A - D'' example_trips = Returns ?stops"
    by presburger
  then show ?thesis
    by (simp add: example_successors)
qed

text \<open>
  The claim as stated fails for a route label whose first and last stop coincide: the loop
  is not entered and the returned sequence is empty, so it does not start with \<open>A\<close>.
\<close>

theorem stops_on_route_linearizes_counterexample:
  "stops_on_route ''A - A'' loop_trips = Returns [] \<and>
   \<not> starts_with (stops_on_route ''A - A'' loop_trips) ''A''"
proof -
  have "stops_on_route ''A - A'' loop_trips = Returns []"
    by (simp add: stops_on_route_Returns_iff split_AA)
  then show ?thesis
    by (simp add: starts_with_def)
qed

text \<open>
  C10.  Whenever \<^verbatim>\<open>stops_on_route\<close> returns, the returned sequence holds no stop twice.
\<close>

theorem stops_on_route_distinct:
  "stops_on_route route data = Returns stops \<Longrightarrow> distinct stops"
proof -
  assume r: "stops_on_route route data = Returns stops"
  then have "3 \<le> length (split route)"
    by (rule stops_on_route_Returns_label)
  with r have "chain (successor_map route data) (split route ! 2) (split route ! 0) stops"
    by (simp add: stops_on_route_Returns_iff)
  then show ?thesis by (rule chain_distinct)
qed

theorem stops_on_route_distinct_witness:
  "stops_on_route ''A - D'' example_trips = Returns [''A'', ''B'', ''C''] \<and>
   distinct [''A'', ''B'', ''C'']"
  using stops_on_route_distinct [OF example_stops] example_stops
  by simp

text \<open>
  C5 (as amended).  Let the route label have at least three tokens and let the walk from
  the first stop come to a stop \<open>s\<close> before it comes to the last stop \<open>B\<close>.  If \<open>s\<close> has
  no successor in the mapping, \<^verbatim>\<open>stops_on_route\<close> raises \<^verbatim>\<open>KeyError\<close> naming \<open>s\<close>.  If
  the walk from the successor of \<open>s\<close> comes back to \<open>s\<close> before it comes to \<open>B\<close> (a cycle
  that does not pass through \<open>B\<close>), \<^verbatim>\<open>stops_on_route\<close> never returns.
\<close>

theorem stops_on_route_malformed:
  assumes "3 \<le> length (split route)"
    and "visits (successor_map route data) (split route ! 2) (split route ! 0) s"
  shows "(successor_map route data s = None \<longrightarrow>
            stops_on_route route data = Raises (KeyError s)) \<and>
         (\<forall>t. successor_map route data s = Some t \<and>
               visits (successor_map route data) (split route ! 2) t s \<longrightarrow>
            stops_on_route route data = Hangs)"
  using assms
  by (auto simp: stops_on_route_eq_follow map_of_successor_frame [symmetric]
      intro: follow_missing follow_cycle)

theorem stops_on_route_malformed_witness:
  "stops_on_route ''A - D'' broken_trips = Raises (KeyError ''C'') \<and>
   stops_on_route ''A - D'' cyclic_trips = Hangs"
proof
  have sp: "3 \<le> length (split ''A - D'')" by (simp add: split_AD)
  let ?f = "successor_map ''A - D'' broken_trips"
  have f: "?f ''A'' = Some ''B''" "?f ''B'' = Some ''C''" "?f ''C'' = None"
    by (simp_all add: successor_map_def route_rows_def trip_def broken_trips_def)
  have c: "visits ?f ''D'' ''C'' ''C''"
    by (rule visits_here) simp
  have b: "visits ?f ''D'' ''B'' ''C''"
    by (rule visits_step [where succ = ?f and nxt = "''C''"]) (simp_all add: f c)
  have "visits ?f ''D'' ''A'' ''C''"
    by (rule visits_step [where succ = ?f and nxt = "''B''"]) (simp_all add: f b)
  then have "visits ?f (split ''A - D'' ! 2) (split ''A - D'' ! 0) ''C''"
    by (simp add: split_AD)
  from stops_on_route_malformed [OF sp this] f(3)
  show "stops_on_route ''A - D'' broken_trips = Raises (KeyError ''C'')"
    by simp
next
  have sp: "3 \<le> length (split ''A - D'')" by (simp add: split_AD)
  let ?f = "successor_map ''A - D'' cyclic_trips"
  have f: "?f ''A'' = Some ''B''" "?f ''B'' = Some ''C''" "?f ''C'' = Some ''B''"
    by (simp_all add: successor_map_def route_rows_def trip_def cyclic_trips_def)
  have here: "visits ?f ''D'' ''B'' ''B''"
    by (rule visits_here) simp
  have "visits ?f ''D'' ''A'' ''B''"
    by (rule visits_step [where succ = ?f and nxt = "''B''"]) (simp_all add: f here)
  then have v: "visits ?f (split ''A - D'' ! 2) (split ''A - D'' ! 0) ''B''"
    by (simp add: split_AD)
  have "visits ?f ''D'' ''C'' ''B''"
    by (rule visits_step [where succ = ?f and nxt = "''B''"]) (simp_all add: f here)
  then have "visits ?f (split ''A - D'' ! 2) ''C'' ''B''"
    by (simp add: split_AD)
  with stops_on_route_malformed [OF sp v] f(2)
  show "stops_on_route ''A - D'' cyclic_trips = Hangs"
    by blast
qed

text \<open>
  The claim as stated fails on a cycle: a stop that is its own successor keeps the loop
  running forever, and no error is raised.
\<close>

theorem stops_on_route_malformed_counterexample:
  "stops_on_route ''A - D'' self_loop_trips = Hangs"
proof -
  let ?df = "successor_frame ''A - D'' self_loop_trips"
  have f: "map_of ?df ''A'' = Some ''A''"
    by (simp add: map_of_successor_frame successor_map_def route_rows_def trip_def
        self_loop_trips_def)
  have v: "visits (map_of ?df) ''D'' ''A'' ''A''"
    by (rule visits_here) simp
  have "follow ?df ''D'' ''A'' [] = Hangs"
    using v f v by (rule follow_cycle)
  then show ?thesis
    by (simp add: stops_on_route_eq_follow split_AD)
qed

section \<open>Rounding to the nearest float\<close>

lemma halvings_bounds: "1 \<le> x \<Longrightarrow> 2 ^ halvings x \<le> x \<and> x < 2 ^ Suc (halvings x)"
proof (induction x rule: halvings.induct)
  case (1 x)
  show ?case
  proof (cases "x < 2")
    case True
    with 1(2) show ?thesis by (simp add: halvings.simps [of x])
  next
    case False
    then have "1 \<le> x / 2" by simp
    with 1(1) False have "2 ^ halvings (x / 2) \<le> x / 2 \<and> x / 2 < 2 ^ Suc (halvings (x / 2))"
      by simp
    with False show ?thesis by (simp add: halvings.simps [of x])
  qed
qed

lemma doublings_bounds:
  "0 < x \<Longrightarrow> x < 1 \<Longrightarrow> 1 \<le> x * 2 ^ doublings x \<and> x * 2 ^ doublings x < 2"
proof (induction x rule: doublings.induct)
  case (1 x)
  show ?case
  proof (cases "2 * x < 1")
    case True
    with 1 have "1 \<le> 2 * x * 2 ^ doublings (2 * x) \<and> 2 * x * 2 ^ doublings (2 * x) < 2"
      by simp
    with 1(2,3) show ?thesis by (simp add: doublings.simps [of x] mult_ac)
  next
    case False
    then have "doublings (2 * x) = 0" by (simp add: doublings.simps [of "2 * x"])
    with 1(2,3) False show ?thesis by (simp add: doublings.simps [of x])
  qed
qed

lemma exponent_bounds:
  assumes "x \<noteq> 0"
  shows "2 powi exponent x \<le> \<bar>x\<bar>" and "\<bar>x\<bar> < 2 powi (exponent x + 1)"
proof -
  show "2 powi exponent x \<le> \<bar>x\<bar>"
  proof (cases "1 \<le> \<bar>x\<bar>")
    case True
    with halvings_bounds [of "\<bar>x\<bar>"] show ?thesis by (simp add: exponent_def)
  next
    case False
    with assms doublings_bounds [of "\<bar>x\<bar>"] have "1 \<le> \<bar>x\<bar> * 2 ^ doublings \<bar>x\<bar>" by simp
    with False show ?thesis
      by (simp add: exponent_def power_int_minus field_simps)
  qed
  show "\<bar>x\<bar> < 2 powi (exponent x + 1)"
  proof (cases "1 \<le> \<bar>x\<bar>")
    case True
    with halvings_bounds [of "\<bar>x\<bar>"] have "\<bar>x\<bar> < 2 ^ Suc (halvings \<bar>x\<bar>)" by simp
    with True show ?thesis
      by (simp add: exponent_def power_int_add)
  next
    case False
    with assms doublings_bounds [of "\<bar>x\<bar>"] have "\<bar>x\<bar> * 2 ^ doublings \<bar>x\<bar> < 2" by simp
    with False show ?thesis
      by (simp add: exponent_def power_int_diff field_simps)
  qed
qed

lemma round_half_even_bound: "\<bar>of_int (round_half_even x) - x\<bar> \<le> 1 / 2"
proof -
  have "of_int \<lfloor>x\<rfloor> \<le> x" "x < of_int \<lfloor>x\<rfloor> + 1"
    by linarith+
  then show ?thesis
    by (auto simp: round_half_even_def Let_def)
qed

lemma round_half_even_of_int: "round_half_even (of_int n) = n"
  by (simp add: round_half_even_def)

lemma ulp_pos: "0 < ulp x"
  by (simp add: ulp_def)

lemma ulp_le: "x \<noteq> 0 \<Longrightarrow> ulp x \<le> \<bar>x\<bar> / 2 ^ 52"
proof -
  assume "x \<noteq> 0"
  then have "2 powi exponent x \<le> \<bar>x\<bar>" by (rule exponent_bounds)
  moreover have "ulp x = 2 powi exponent x / 2 ^ 52"
    by (simp add: ulp_def power_int_diff)
  ultimately show ?thesis by (simp add: divide_right_mono)
qed

lemma float64_error: "\<bar>float64 x - x\<bar> \<le> \<bar>x\<bar> / 2 ^ 53"
proof (cases "x = 0")
  case True
  then show ?thesis by (simp add: float64_def)
next
  case False
  let ?k = "real_of_int (round_half_even (x / ulp x))"
  have "float64 x - x = (?k - x / ulp x) * ulp x"
    using False ulp_pos [of x] by (simp add: float64_def field_simps)
  then have "\<bar>float64 x - x\<bar> = \<bar>?k - x / ulp x\<bar> * ulp x"
    using ulp_pos [of x] by (simp add: abs_mult)
  also have "\<dots> \<le> 1 / 2 * ulp x"
    using round_half_even_bound [of "x / ulp x"] ulp_pos [of x]
    by (intro mult_right_mono) simp_all
  also have "\<dots> \<le> 1 / 2 * (\<bar>x\<bar> / 2 ^ 52)"
    using ulp_le [OF False] by simp
  finally show ?thesis by simp
qed

lemma float64_representable:
  assumes "\<bar>k\<bar> < 2 ^ 53"
  shows "float64 (of_int k * 2 powi e) = of_int k * 2 powi e"
proof (cases "k = 0")
  case True
  then show ?thesis by (simp add: float64_def)
next
  case False
  let ?x = "real_of_int k * 2 powi e"
  from False have nz: "?x \<noteq> 0" by simp
  have "2 powi exponent ?x \<le> \<bar>?x\<bar>" using nz by (rule exponent_bounds)
  also have "\<bar>?x\<bar> = real_of_int \<bar>k\<bar> * 2 powi e" by (simp add: abs_mult)
  also have "\<dots> < 2 ^ 53 * 2 powi e"
  proof (rule mult_strict_right_mono)
    from assms have "real_of_int \<bar>k\<bar> < real_of_int (2 ^ 53)" by (simp only: of_int_less_iff)
    then show "real_of_int \<bar>k\<bar> < 2 ^ 53" by simp
  qed simp
  also have "\<dots> = 2 powi (e + 53)" by (simp add: power_int_add)
  finally have lt: "(2::real) powi exponent ?x < 2 powi (e + 53)" .
  have "exponent ?x < e + 53"
  proof (rule ccontr)
    assume "\<not> exponent ?x < e + 53"
    then have "e + 53 \<le> exponent ?x" by simp
    then have "(2::real) powi (e + 53) \<le> 2 powi exponent ?x"
      by (rule power_int_increasing) simp
    with lt show False by simp
  qed
  define d where "d = nat (e + 52 - exponent ?x)"
  with \<open>exponent ?x < e + 53\<close> have d: "int d = e + 52 - exponent ?x"
    by simp
  have "?x / ulp ?x = real_of_int k * 2 powi (e - (exponent ?x - 52))"
    by (simp add: ulp_def power_int_diff)
  also have "e - (exponent ?x - 52) = int d" using d by simp
  also have "real_of_int k * 2 powi int d = real_of_int (k * 2 ^ d)" by simp
  finally have q: "?x / ulp ?x = real_of_int (k * 2 ^ d)" .
  have "float64 ?x = real_of_int (k * 2 ^ d) * ulp ?x"
    using nz unfolding float64_def q round_half_even_of_int by simp
  also have "\<dots> = ?x / ulp ?x * ulp ?x" by (simp only: q)
  also have "\<dots> = ?x" using ulp_pos [of ?x] by simp
  finally show ?thesis .
qed

lemma float64_of_int: "\<bar>k\<bar> < 2 ^ 53 \<Longrightarrow> float64 (of_int k) = of_int k"
  using float64_representable [of k 0] by simp

lemma float64_idem: "float64 (float64 x) = float64 x"
proof (cases "x = 0")
  case True
  then show ?thesis by (simp add: float64_def)
next
  case False
  define K where "K = round_half_even (x / ulp x)"
  have y: "float64 x = of_int K * 2 powi (exponent x - 52)"
    using False by (simp add: float64_def K_def ulp_def)
  have "\<bar>x\<bar> < 2 powi (exponent x + 1)" using False by (rule exponent_bounds)
  also have "\<dots> = 2 ^ 53 * ulp x" by (simp add: ulp_def power_int_add power_int_diff)
  finally have "\<bar>x\<bar> / ulp x < 2 ^ 53" using ulp_pos [of x] by (simp add: field_simps)
  then have "\<bar>x / ulp x\<bar> < 2 ^ 53" using ulp_pos [of x] by (simp add: abs_divide)
  with round_half_even_bound [of "x / ulp x"] have "\<bar>real_of_int K\<bar> < 2 ^ 53 + 1"
    unfolding K_def by linarith
  then have "real_of_int \<bar>K\<bar> < real_of_int (2 ^ 53 + 1)" by simp
  then have "\<bar>K\<bar> < 2 ^ 53 + 1" by (simp only: of_int_less_iff)
  then have "\<bar>K\<bar> < 2 ^ 53 \<or> K = 2 ^ 53 \<or> K = - (2 ^ 53)" by linarith
  then show ?thesis
  proof (elim disjE)
    assume "\<bar>K\<bar> < 2 ^ 53"
    then show ?thesis unfolding y by (rule float64_representable)
  next
    assume "K = 2 ^ 53"
    then have "float64 x = of_int (2 ^ 52) * 2 powi (exponent x - 51)"
      unfolding y by (simp add: power_int_diff)
    moreover have "float64 (of_int (2 ^ 52) * 2 powi (exponent x - 51)) =
        of_int (2 ^ 52) * 2 powi (exponent x - 51)"
      by (rule float64_representable) simp
    ultimately show ?thesis by simp
  next
    assume "K = - (2 ^ 53)"
    then have "float64 x = of_int (- (2 ^ 52)) * 2 powi (exponent x - 51)"
      unfolding y by (simp add: power_int_diff)
    moreover have "float64 (of_int (- (2 ^ 52)) * 2 powi (exponent x - 51)) =
        of_int (- (2 ^ 52)) * 2 powi (exponent x - 51)"
      by (rule float64_representable) simp
    ultimately show ?thesis by simp
  qed
qed

section \<open>Float sums and means, and how far they are from the exact ones\<close>

lemmas float64_eval =
  float64_def ulp_def exponent_def halvings.simps doublings.simps power_int_minus
  round_half_even_def Let_def

lemma float64_zero [simp]: "float64 0 = 0"
  by (simp add: float64_def)

lemma float64_numeral:
  "(numeral w :: int) < 2 ^ 53 \<Longrightarrow> float64 (numeral w) = numeral w"
  using float64_of_int [of "numeral w"] by simp

lemma float64_neg_numeral:
  "(numeral w :: int) < 2 ^ 53 \<Longrightarrow> float64 (- numeral w) = - numeral w"
  using float64_of_int [of "- numeral w"] by simp

lemma float64_one [simp]: "float64 1 = 1"
  using float64_of_int [of 1] by simp

lemma float64_neg_one [simp]: "float64 (- 1) = - 1"
  using float64_of_int [of "- 1"] by simp

lemma fsum_Nil [simp]: "fsum [] = 0"
  by (simp add: fsum_def)

lemma fsum_snoc: "fsum (xs @ [x]) = fadd (fsum xs) x"
  by (simp add: fsum_def)

lemma fsum_single: "fsum [x] = float64 x"
  by (simp add: fsum_def fadd_def)

lemma float64_fsum: "float64 (fsum xs) = fsum xs"
  by (cases xs rule: rev_cases) (simp_all add: fsum_snoc fadd_def float64_idem)

lemma rounding_bound_0 [simp]: "rounding_bound 0 = 0"
  by (simp add: rounding_bound_def)

lemma rounding_bound_nonneg: "0 \<le> rounding_bound k"
  by (simp add: rounding_bound_def)

lemma rounding_bound_mono: "k \<le> l \<Longrightarrow> rounding_bound k \<le> rounding_bound l"
  by (simp add: rounding_bound_def power_increasing)

lemma rounding_bound_Suc:
  "rounding_bound (Suc k) = rounding_bound k + (1 + rounding_bound k) / 2 ^ 53"
  by (simp add: rounding_bound_def field_simps)

lemma rounding_bound_add:
  "rounding_bound (k + l) = rounding_bound k * (1 + rounding_bound l) + rounding_bound l"
  by (simp add: rounding_bound_def power_add algebra_simps)

lemma float64_abs_le: "\<bar>float64 x\<bar> \<le> \<bar>x\<bar> * (1 + 1 / 2 ^ 53)"
proof -
  have "\<bar>float64 x\<bar> \<le> \<bar>x\<bar> + \<bar>float64 x - x\<bar>" by simp
  also have "\<dots> \<le> \<bar>x\<bar> + \<bar>x\<bar> / 2 ^ 53" using float64_error [of x] by simp
  finally show ?thesis by (simp add: algebra_simps)
qed

lemma fsum_error:
  "\<bar>fsum xs - sum_list xs\<bar> \<le> rounding_bound (length xs) * (\<Sum>x\<leftarrow>xs. \<bar>x\<bar>)"
proof (induction xs rule: rev_induct)
  case Nil
  show ?case by simp
next
  case (snoc x xs)
  let ?s = "fsum xs" and ?S = "sum_list xs" and ?A = "\<Sum>x\<leftarrow>xs. \<bar>x\<bar>"
  let ?g = "rounding_bound (length xs)"
  have A: "0 \<le> ?A" by (rule sum_list_nonneg) auto
  have g: "0 \<le> ?g" by (rule rounding_bound_nonneg)
  have S: "\<bar>?S\<bar> \<le> ?A" by (rule sum_list_abs)
  from snoc.IH have s: "\<bar>?s\<bar> \<le> (1 + ?g) * ?A"
    using S by (simp add: algebra_simps)
  have "\<bar>fadd ?s x - (?s + x)\<bar> \<le> \<bar>?s + x\<bar> / 2 ^ 53"
    unfolding fadd_def by (rule float64_error)
  also have "\<dots> \<le> ((1 + ?g) * ?A + \<bar>x\<bar>) / 2 ^ 53"
  proof (rule divide_right_mono)
    from s show "\<bar>?s + x\<bar> \<le> (1 + ?g) * ?A + \<bar>x\<bar>" by linarith
  qed simp
  finally have r: "\<bar>fadd ?s x - (?s + x)\<bar> \<le> ((1 + ?g) * ?A + \<bar>x\<bar>) / 2 ^ 53" .
  have "\<bar>fadd ?s x - (?S + x)\<bar> \<le> \<bar>fadd ?s x - (?s + x)\<bar> + \<bar>?s - ?S\<bar>" by simp
  also have "\<dots> \<le> ((1 + ?g) * ?A + \<bar>x\<bar>) / 2 ^ 53 + ?g * ?A"
    using r snoc.IH by linarith
  also have "\<dots> = rounding_bound (Suc (length xs)) * ?A + \<bar>x\<bar> / 2 ^ 53"
    by (simp add: rounding_bound_Suc algebra_simps add_divide_distrib)
  also have "\<dots> \<le> rounding_bound (Suc (length xs)) * ?A + rounding_bound (Suc (length xs)) * \<bar>x\<bar>"
  proof -
    have "(1::real) / 2 ^ 53 \<le> (1 + ?g) / 2 ^ 53"
      using g by (intro divide_right_mono) simp_all
    then have "1 / 2 ^ 53 \<le> rounding_bound (Suc (length xs))"
      unfolding rounding_bound_Suc using g by linarith
    then have "1 / 2 ^ 53 * \<bar>x\<bar> \<le> rounding_bound (Suc (length xs)) * \<bar>x\<bar>"
      by (intro mult_right_mono) simp_all
    then show ?thesis by simp
  qed
  finally show ?case
    by (simp add: fsum_snoc algebra_simps)
qed

lemma fsum_abs_le: "\<bar>fsum xs\<bar> \<le> (1 + rounding_bound (length xs)) * (\<Sum>x\<leftarrow>xs. \<bar>x\<bar>)"
proof -
  have "\<bar>fsum xs\<bar> \<le> \<bar>sum_list xs\<bar> + \<bar>fsum xs - sum_list xs\<bar>" by simp
  also have "\<dots> \<le> (\<Sum>x\<leftarrow>xs. \<bar>x\<bar>) + rounding_bound (length xs) * (\<Sum>x\<leftarrow>xs. \<bar>x\<bar>)"
    using sum_list_abs [of xs] fsum_error [of xs] by linarith
  finally show ?thesis by (simp add: algebra_simps)
qed

lemma dropna_Some [simp]: "dropna (map Some vs) = vs"
  by (induction vs) simp_all

lemma mean_Some:
  "vs \<noteq> [] \<Longrightarrow> mean (map Some vs) = Some (fdiv (fsum vs) (real (length vs)))"
  by (simp add: mean_def)

lemma divide_shrink:
  fixes y n :: real
  assumes "1 \<le> n"
  shows "\<bar>y\<bar> / n \<le> \<bar>y\<bar>"
proof -
  have "\<bar>y\<bar> * 1 \<le> \<bar>y\<bar> * n"
    using assms by (intro mult_left_mono) simp_all
  with assms show ?thesis
    by (simp add: divide_le_eq)
qed

lemma fmean_error:
  assumes "vs \<noteq> []"
  shows "\<bar>fdiv (fsum vs) (real (length vs)) - sum_list vs / real (length vs)\<bar>
           \<le> rounding_bound (Suc (length vs)) * (\<Sum>v\<leftarrow>vs. \<bar>v\<bar>)"
proof -
  let ?n = "real (length vs)"
  let ?s = "fsum vs" and ?S = "sum_list vs" and ?A = "\<Sum>v\<leftarrow>vs. \<bar>v\<bar>"
  let ?g = "rounding_bound (length vs)"
  from assms have n: "1 \<le> ?n" by (cases vs) simp_all
  have A: "0 \<le> ?A" by (rule sum_list_nonneg) auto
  have shrink: "\<bar>y\<bar> / ?n \<le> \<bar>y\<bar>" for y :: real
    using n by (rule divide_shrink)
  have "\<bar>fdiv ?s ?n - ?s / ?n\<bar> \<le> \<bar>?s / ?n\<bar> / 2 ^ 53"
    unfolding fdiv_def by (rule float64_error)
  also have "\<dots> \<le> \<bar>?s\<bar> / 2 ^ 53"
    using shrink [of ?s] n by (simp add: divide_right_mono)
  also have "\<dots> \<le> (1 + ?g) * ?A / 2 ^ 53"
    using fsum_abs_le [of vs] by (simp add: divide_right_mono)
  finally have 1: "\<bar>fdiv ?s ?n - ?s / ?n\<bar> \<le> (1 + ?g) * ?A / 2 ^ 53" .
  have "\<bar>?s / ?n - ?S / ?n\<bar> = \<bar>?s - ?S\<bar> / ?n"
    using n by (simp add: diff_divide_distrib [symmetric])
  also have "\<dots> \<le> \<bar>?s - ?S\<bar>" by (rule shrink)
  also have "\<dots> \<le> ?g * ?A" by (rule fsum_error)
  finally have 2: "\<bar>?s / ?n - ?S / ?n\<bar> \<le> ?g * ?A" .
  have "\<bar>fdiv ?s ?n - ?S / ?n\<bar> \<le> \<bar>fdiv ?s ?n - ?s / ?n\<bar> + \<bar>?s / ?n - ?S / ?n\<bar>"
    by simp
  also have "\<dots> \<le> (1 + ?g) * ?A / 2 ^ 53 + ?g * ?A"
    using 1 2 by linarith
  also have "\<dots> = rounding_bound (Suc (length vs)) * ?A"
    by (simp add: rounding_bound_Suc algebra_simps add_divide_distrib)
  finally show ?thesis .
qed

lemma fmean_abs_le:
  assumes "vs \<noteq> []"
  shows "\<bar>fdiv (fsum vs) (real (length vs))\<bar>
           \<le> (1 + rounding_bound (Suc (length vs))) * (\<Sum>v\<leftarrow>vs. \<bar>v\<bar>)"
proof -
  let ?n = "real (length vs)"
  let ?m = "fdiv (fsum vs) ?n" and ?S = "sum_list vs" and ?A = "\<Sum>v\<leftarrow>vs. \<bar>v\<bar>"
  from assms have n: "1 \<le> ?n" by (cases vs) simp_all
  have "\<bar>?S / ?n\<bar> = \<bar>?S\<bar> / ?n" using n by simp
  also have "\<dots> \<le> \<bar>?S\<bar>" using n by (rule divide_shrink)
  also have "\<dots> \<le> ?A" by (rule sum_list_abs)
  finally have S: "\<bar>?S / ?n\<bar> \<le> ?A" .
  have "\<bar>?m\<bar> \<le> \<bar>?S / ?n\<bar> + \<bar>?m - ?S / ?n\<bar>" by linarith
  also have "\<dots> \<le> ?A + rounding_bound (Suc (length vs)) * ?A"
    using S fmean_error [OF assms] by linarith
  finally show ?thesis by (simp add: algebra_simps)
qed

lemma unit_scale: "(1 + 1 / 2 ^ 53) * X = X + X / 2 ^ 53" for X :: real
  by (simp only: distrib_right mult_1 times_divide_eq_left)

lemma rounding_bound_step:
  "rounding_bound (Suc k) = rounding_bound k * (1 + 1 / 2 ^ 53) + 1 / 2 ^ 53"
proof -
  have "rounding_bound (Suc k) = rounding_bound k + (1 + rounding_bound k) / 2 ^ 53"
    by (rule rounding_bound_Suc)
  also have "\<dots> = (1 + 1 / 2 ^ 53) * rounding_bound k + 1 / 2 ^ 53"
    by (simp only: unit_scale add_divide_distrib add.assoc add.commute)
  finally show ?thesis by (simp only: mult.commute)
qed

lemma fadd_error: "\<bar>fadd a b - (a + b)\<bar> \<le> (\<bar>a\<bar> + \<bar>b\<bar>) / 2 ^ 53"
proof -
  have "\<bar>fadd a b - (a + b)\<bar> \<le> \<bar>a + b\<bar> / 2 ^ 53"
    unfolding fadd_def by (rule float64_error)
  also have "\<dots> \<le> (\<bar>a\<bar> + \<bar>b\<bar>) / 2 ^ 53"
    by (intro divide_right_mono) simp_all
  finally show ?thesis .
qed

lemma fadd_abs_le: "\<bar>fadd a b\<bar> \<le> (1 + 1 / 2 ^ 53) * (\<bar>a\<bar> + \<bar>b\<bar>)"
proof -
  have "\<bar>fadd a b\<bar> \<le> \<bar>a + b\<bar> + \<bar>fadd a b - (a + b)\<bar>" by linarith
  also have "\<dots> \<le> (\<bar>a\<bar> + \<bar>b\<bar>) + (\<bar>a\<bar> + \<bar>b\<bar>) / 2 ^ 53"
    using fadd_error [of a b] by linarith
  finally show ?thesis by (simp only: unit_scale)
qed

lemma group_means:
  fixes ps :: "(real \<times> real) list"
  assumes "ps \<noteq> []"
  shows "\<bar>fdiv (fsum (map (\<lambda>p. fadd (fst p) (snd p)) ps)) (real (length ps)) -
          (fdiv (fsum (map fst ps)) (real (length ps)) +
           fdiv (fsum (map snd ps)) (real (length ps)))\<bar>
           \<le> 2 * rounding_bound (length ps + 2) * (\<Sum>p\<leftarrow>ps. \<bar>fst p\<bar> + \<bar>snd p\<bar>)"
    and "\<bar>fdiv (fsum (map fst ps)) (real (length ps))\<bar> +
         \<bar>fdiv (fsum (map snd ps)) (real (length ps))\<bar> +
         \<bar>fdiv (fsum (map (\<lambda>p. fadd (fst p) (snd p)) ps)) (real (length ps))\<bar>
           \<le> 2 * (1 + rounding_bound (length ps + 2)) * (\<Sum>p\<leftarrow>ps. \<bar>fst p\<bar> + \<bar>snd p\<bar>)"
proof -
  let ?as = "map fst ps" and ?bs = "map snd ps" and ?cs = "map (\<lambda>p. fadd (fst p) (snd p)) ps"
  define n where "n = real (length ps)"
  define ma where "ma = fdiv (fsum ?as) n"
  define mb where "mb = fdiv (fsum ?bs) n"
  define mc where "mc = fdiv (fsum ?cs) n"
  define Aa where "Aa = (\<Sum>p\<leftarrow>ps. \<bar>fst p\<bar>)"
  define Ab where "Ab = (\<Sum>p\<leftarrow>ps. \<bar>snd p\<bar>)"
  define Ac where "Ac = (\<Sum>p\<leftarrow>ps. \<bar>fadd (fst p) (snd p)\<bar>)"
  define W where "W = (\<Sum>p\<leftarrow>ps. \<bar>fst p\<bar> + \<bar>snd p\<bar>)"
  define u :: real where "u = 1 / 2 ^ 53"
  define g1 where "g1 = rounding_bound (Suc (length ps))"
  define g2 where "g2 = rounding_bound (length ps + 2)"
  from assms have n: "1 \<le> n" unfolding n_def by (cases ps) simp_all
  have W: "W = Aa + Ab"
    unfolding W_def Aa_def Ab_def by (simp add: sum_list_addf)
  have W0: "0 \<le> W" unfolding W_def by (rule sum_list_nonneg) auto
  have Aa0: "0 \<le> Aa" unfolding Aa_def by (rule sum_list_nonneg) auto
  have Ab0: "0 \<le> Ab" unfolding Ab_def by (rule sum_list_nonneg) auto
  have u0: "0 \<le> u" unfolding u_def by simp
  have g10: "0 \<le> g1" unfolding g1_def by (rule rounding_bound_nonneg)
  have g2: "g2 = g1 * (1 + u) + u"
    unfolding g2_def g1_def u_def by (simp only: add_2_eq_Suc' rounding_bound_step)
  have "Ac \<le> (\<Sum>p\<leftarrow>ps. (1 + u) * (\<bar>fst p\<bar> + \<bar>snd p\<bar>))"
    unfolding Ac_def u_def by (rule sum_list_mono) (rule fadd_abs_le)
  then have Ac: "Ac \<le> (1 + u) * W"
    unfolding W_def by (simp add: sum_list_const_mult)
  have ea: "\<bar>ma - sum_list ?as / n\<bar> \<le> g1 * Aa"
    using fmean_error [of ?as] assms
    by (simp add: ma_def n_def g1_def Aa_def comp_def)
  have eb: "\<bar>mb - sum_list ?bs / n\<bar> \<le> g1 * Ab"
    using fmean_error [of ?bs] assms
    by (simp add: mb_def n_def g1_def Ab_def comp_def)
  have ec: "\<bar>mc - sum_list ?cs / n\<bar> \<le> g1 * Ac"
    using fmean_error [of ?cs] assms
    by (simp add: mc_def n_def g1_def Ac_def comp_def)
  have "sum_list ?cs - (sum_list ?as + sum_list ?bs) =
      (\<Sum>p\<leftarrow>ps. fadd (fst p) (snd p) - (fst p + snd p))"
    by (simp add: sum_list_subtractf sum_list_addf)
  also have "\<bar>\<dots>\<bar> \<le> (\<Sum>p\<leftarrow>ps. \<bar>fadd (fst p) (snd p) - (fst p + snd p)\<bar>)"
    using sum_list_abs [of "map (\<lambda>p. fadd (fst p) (snd p) - (fst p + snd p)) ps"]
    by (simp add: comp_def)
  also have "\<dots> \<le> (\<Sum>p\<leftarrow>ps. u * (\<bar>fst p\<bar> + \<bar>snd p\<bar>))"
    unfolding u_def using fadd_error by (intro sum_list_mono) simp
  also have "\<dots> = u * W"
    unfolding W_def by (simp add: sum_list_const_mult)
  finally have d: "\<bar>sum_list ?cs - (sum_list ?as + sum_list ?bs)\<bar> \<le> u * W" .
  have "sum_list ?cs / n - (sum_list ?as / n + sum_list ?bs / n) =
      (sum_list ?cs - (sum_list ?as + sum_list ?bs)) / n"
    by (simp only: add_divide_distrib diff_divide_distrib)
  moreover from n have "\<bar>n\<bar> = n" by simp
  ultimately have "\<bar>sum_list ?cs / n - (sum_list ?as / n + sum_list ?bs / n)\<bar> =
      \<bar>sum_list ?cs - (sum_list ?as + sum_list ?bs)\<bar> / n"
    by (simp only: abs_divide)
  also have "\<dots> \<le> \<bar>sum_list ?cs - (sum_list ?as + sum_list ?bs)\<bar>"
    using n by (rule divide_shrink)
  finally have dn: "\<bar>sum_list ?cs / n - (sum_list ?as / n + sum_list ?bs / n)\<bar> \<le> u * W"
    using d by linarith
  have "g1 * Ac \<le> g1 * ((1 + u) * W)"
    using Ac g10 by (rule mult_left_mono)
  then have gc: "g1 * Ac \<le> g1 * (1 + u) * W" by (simp add: mult.assoc)
  have "\<bar>mc - (ma + mb)\<bar> \<le> g1 * Ac + u * W + g1 * Aa + g1 * Ab"
    using ea eb ec dn by linarith
  also have "\<dots> \<le> g1 * (1 + u) * W + u * W + g1 * W"
    using gc by (simp add: W algebra_simps)
  also have "\<dots> = g2 * W + g1 * W" by (simp add: g2 algebra_simps)
  also have "\<dots> \<le> g2 * W + g2 * W"
  proof -
    have "g1 \<le> g2" unfolding g1_def g2_def by (rule rounding_bound_mono) simp
    then have "g1 * W \<le> g2 * W" using W0 by (rule mult_right_mono)
    then show ?thesis by linarith
  qed
  finally show "\<bar>fdiv (fsum (map (\<lambda>p. fadd (fst p) (snd p)) ps)) (real (length ps)) -
          (fdiv (fsum (map fst ps)) (real (length ps)) +
           fdiv (fsum (map snd ps)) (real (length ps)))\<bar>
           \<le> 2 * rounding_bound (length ps + 2) * (\<Sum>p\<leftarrow>ps. \<bar>fst p\<bar> + \<bar>snd p\<bar>)"
    by (simp add: mc_def ma_def mb_def n_def g2_def W_def)
  have aa: "\<bar>ma\<bar> \<le> (1 + g1) * Aa"
    using fmean_abs_le [of ?as] assms
    by (simp add: ma_def n_def g1_def Aa_def comp_def)
  have ab: "\<bar>mb\<bar> \<le> (1 + g1) * Ab"
    using fmean_abs_le [of ?bs] assms
    by (simp add: mb_def n_def g1_def Ab_def comp_def)
  have ac: "\<bar>mc\<bar> \<le> (1 + g1) * Ac"
    using fmean_abs_le [of ?cs] assms
    by (simp add: mc_def n_def g1_def Ac_def comp_def)
  have "(1 + g1) * Ac \<le> (1 + g1) * ((1 + u) * W)"
    using Ac g10 by (intro mult_left_mono) simp_all
  also have "\<dots> = (1 + g2) * W" by (simp add: g2 algebra_simps)
  finally have ac': "\<bar>mc\<bar> \<le> (1 + g2) * W" using ac by linarith
  have "\<bar>ma\<bar> + \<bar>mb\<bar> \<le> (1 + g1) * W"
    using aa ab by (simp add: W algebra_simps)
  also have "\<dots> \<le> (1 + g2) * W"
  proof -
    have "g1 \<le> g2" unfolding g1_def g2_def by (rule rounding_bound_mono) simp
    then have "(1 + g1) * W \<le> (1 + g2) * W" using W0 by (intro mult_right_mono) simp_all
    then show ?thesis .
  qed
  finally have "\<bar>ma\<bar> + \<bar>mb\<bar> + \<bar>mc\<bar> \<le> (1 + g2) * W + (1 + g2) * W"
    using ac' by linarith
  then have "\<bar>ma\<bar> + \<bar>mb\<bar> + \<bar>mc\<bar> \<le> 2 * (1 + g2) * W"
    by (simp add: algebra_simps)
  then show "\<bar>fdiv (fsum (map fst ps)) (real (length ps))\<bar> +
         \<bar>fdiv (fsum (map snd ps)) (real (length ps))\<bar> +
         \<bar>fdiv (fsum (map (\<lambda>p. fadd (fst p) (snd p)) ps)) (real (length ps))\<bar>
           \<le> 2 * (1 + rounding_bound (length ps + 2)) * (\<Sum>p\<leftarrow>ps. \<bar>fst p\<bar> + \<bar>snd p\<bar>)"
    unfolding mc_def ma_def mb_def n_def g2_def W_def .
qed

lemma column_sums:
  fixes qs :: "'q list" and a b c w :: "'q \<Rightarrow> real"
  assumes eps: "\<And>q. q \<in> set qs \<Longrightarrow> \<bar>c q - (a q + b q)\<bar> \<le> e * w q"
    and beta: "\<And>q. q \<in> set qs \<Longrightarrow> \<bar>a q\<bar> + \<bar>b q\<bar> + \<bar>c q\<bar> \<le> d * w q"
  shows "\<bar>fsum (map c qs) - (fsum (map a qs) + fsum (map b qs))\<bar>
           \<le> (rounding_bound (length qs) * d + e) * (\<Sum>q\<leftarrow>qs. w q)"
proof -
  define g where "g = rounding_bound (length qs)"
  define Aa where "Aa = (\<Sum>q\<leftarrow>qs. \<bar>a q\<bar>)"
  define Ab where "Ab = (\<Sum>q\<leftarrow>qs. \<bar>b q\<bar>)"
  define Ac where "Ac = (\<Sum>q\<leftarrow>qs. \<bar>c q\<bar>)"
  define W where "W = (\<Sum>q\<leftarrow>qs. w q)"
  have g0: "0 \<le> g" unfolding g_def by (rule rounding_bound_nonneg)
  have ea: "\<bar>fsum (map a qs) - sum_list (map a qs)\<bar> \<le> g * Aa"
    using fsum_error [of "map a qs"] by (simp add: g_def Aa_def comp_def)
  have eb: "\<bar>fsum (map b qs) - sum_list (map b qs)\<bar> \<le> g * Ab"
    using fsum_error [of "map b qs"] by (simp add: g_def Ab_def comp_def)
  have ec: "\<bar>fsum (map c qs) - sum_list (map c qs)\<bar> \<le> g * Ac"
    using fsum_error [of "map c qs"] by (simp add: g_def Ac_def comp_def)
  have "Aa + Ab + Ac = (\<Sum>q\<leftarrow>qs. \<bar>a q\<bar> + \<bar>b q\<bar> + \<bar>c q\<bar>)"
    unfolding Aa_def Ab_def Ac_def by (simp add: sum_list_addf)
  also have "\<dots> \<le> (\<Sum>q\<leftarrow>qs. d * w q)"
    using beta by (rule sum_list_mono)
  also have "\<dots> = d * W"
    unfolding W_def by (simp add: sum_list_const_mult)
  finally have sizes: "Aa + Ab + Ac \<le> d * W" .
  have "sum_list (map c qs) - (sum_list (map a qs) + sum_list (map b qs)) =
      (\<Sum>q\<leftarrow>qs. c q - (a q + b q))"
    by (simp add: sum_list_subtractf sum_list_addf)
  also have "\<bar>\<dots>\<bar> \<le> (\<Sum>q\<leftarrow>qs. \<bar>c q - (a q + b q)\<bar>)"
    using sum_list_abs [of "map (\<lambda>q. c q - (a q + b q)) qs"] by (simp add: comp_def)
  also have "\<dots> \<le> (\<Sum>q\<leftarrow>qs. e * w q)"
    using eps by (rule sum_list_mono)
  also have "\<dots> = e * W"
    unfolding W_def by (simp add: sum_list_const_mult)
  finally have diff: "\<bar>sum_list (map c qs) - (sum_list (map a qs) + sum_list (map b qs))\<bar> \<le> e * W" .
  have "g * (Aa + Ab + Ac) \<le> g * (d * W)"
    using sizes g0 by (rule mult_left_mono)
  then have gs: "g * Aa + g * Ab + g * Ac \<le> g * d * W"
    by (simp add: algebra_simps)
  have "\<bar>fsum (map c qs) - (fsum (map a qs) + fsum (map b qs))\<bar>
      \<le> g * Aa + g * Ab + g * Ac + e * W"
    using ea eb ec diff by linarith
  also have "\<dots> \<le> g * d * W + e * W"
    using gs by linarith
  also have "\<dots> = (g * d + e) * W"
    by (simp add: algebra_simps)
  finally show ?thesis
    unfolding g_def W_def .
qed

lemma sum_list_filter_le:
  fixes w :: "'a \<Rightarrow> real"
  assumes "\<And>x. 0 \<le> w x"
  shows "(\<Sum>x\<leftarrow>filter P xs. w x) \<le> (\<Sum>x\<leftarrow>xs. w x)"
proof (induction xs)
  case Nil
  show ?case by simp
next
  case (Cons x xs)
  with assms [of x] show ?case by simp
qed

lemma sum_list_partition:
  fixes w :: "'a \<Rightarrow> real"
  shows "(\<Sum>x\<leftarrow>filter P xs. w x) + (\<Sum>x\<leftarrow>filter (\<lambda>x. \<not> P x) xs. w x) = (\<Sum>x\<leftarrow>xs. w x)"
  by (induction xs) simp_all

lemma rounding_bound_le: "k \<le> 2 ^ 52 \<Longrightarrow> rounding_bound k \<le> real k / 2 ^ 52"
proof (induction k)
  case 0
  show ?case by simp
next
  case (Suc k)
  then have IH: "rounding_bound k \<le> real k / 2 ^ 52" by simp
  from Suc.prems have "real k \<le> 2 ^ 52"
    by (metis Suc_leD of_nat_le_iff of_nat_numeral of_nat_power)
  then have "real k / 2 ^ 52 \<le> 1" by simp
  with IH have "1 + rounding_bound k \<le> 2" by linarith
  then have "(1 + rounding_bound k) / 2 ^ 53 \<le> 2 / 2 ^ 53"
    by (rule divide_right_mono) simp
  also have "(2::real) / 2 ^ 53 = 1 / 2 ^ 52" by simp
  finally have "rounding_bound (Suc k) \<le> real k / 2 ^ 52 + 1 / 2 ^ 52"
    unfolding rounding_bound_Suc using IH by linarith
  then show ?case by (simp add: add_divide_distrib)
qed

text \<open>Evaluating the float operations on small integers and on some thirds.\<close>

lemmas float_arith = fsum_def fadd_def fdiv_def fmul_def float64_numeral float64_neg_numeral

lemma float64_thirds:
  "float64 (1 / 3) = 6004799503160661 / 18014398509481984"
  "float64 (- (2 / 3)) = - (6004799503160661 / 9007199254740992)"
  "float64 (2 / 3) = 6004799503160661 / 9007199254740992"
  "float64 (7 / 3) = 5254199565265579 / 2251799813685248"
  by (simp_all add: float64_eval)

section \<open>The table of \<^verbatim>\<open>contributions\<close> in closed form\<close>

lemma distinct_keys_lookup:
  "distinct (map fst kvs) \<Longrightarrow>
     map (\<lambda>k. (k, case map_of kvs k of None \<Rightarrow> d | Some v \<Rightarrow> v)) (map fst kvs) = kvs"
proof (induction kvs)
  case Nil
  show ?case by simp
next
  case (Cons kv kvs)
  from Cons.prems have notin: "fst kv \<notin> fst ` set kvs" and dist: "distinct (map fst kvs)"
    by simp_all
  have "map (\<lambda>k. (k, case map_of (kv # kvs) k of None \<Rightarrow> d | Some v \<Rightarrow> v)) (map fst kvs)
      = map (\<lambda>k. (k, case map_of kvs k of None \<Rightarrow> d | Some v \<Rightarrow> v)) (map fst kvs)"
    using notin by (cases kv) (auto simp: image_iff)
  with Cons.IH [OF dist] show ?case
    by (cases kv) simp
qed

lemma reindex_distinct_target:
  assumes "distinct target"
  shows "reindex conts target =
     (if distinct (map fst conts)
      then Inr (map (\<lambda>s. (s, case map_of conts s of None \<Rightarrow> null_row | Some row \<Rightarrow> row)) target)
      else Inl ValueError)"
proof (cases "map fst conts = target")
  case True
  with assms have d: "distinct (map fst conts)" by simp
  from distinct_keys_lookup [OF d, of null_row] True d show ?thesis
    by (simp add: reindex_def)
next
  case False
  then show ?thesis by (simp add: reindex_def)
qed

lemma set_dropna: "set (dropna xs) = {v. Some v \<in> set xs}"
  by (induction xs rule: dropna.induct) auto

lemma conts_index:
  "map fst (set_index_von1 (groupby_mean df)) = map fst (sort (remdups (dropna (map group_key df))))"
  by (auto simp: set_index_von1_def groupby_mean_def Let_def split: prod.splits)

lemma keys_set:
  "set (sort (remdups (dropna (map group_key df)))) = {k. \<exists>r \<in> set df. group_key r = Some k}"
  by (auto simp: set_dropna intro: rev_image_eqI)

lemma group_key_Some_iff:
  "group_key r = Some k \<longleftrightarrow> halt_lang r = Some (snd k) \<and> halt_kurz_von1 r = fst k"
  by (cases k; cases "halt_lang r") (auto simp: group_key_def)

lemma keys_inj_iff:
  "inj_on fst {k. \<exists>r \<in> set df. group_key r = Some k} \<longleftrightarrow> single_named df"
proof
  assume inj: "inj_on fst {k. \<exists>r \<in> set df. group_key r = Some k}"
  show "single_named df"
    unfolding single_named_def
  proof (intro ballI impI)
    fix r1 r2
    assume r: "r1 \<in> set df" "r2 \<in> set df"
      and h: "halt_kurz_von1 r1 = halt_kurz_von1 r2 \<and> halt_lang r1 \<noteq> None \<and> halt_lang r2 \<noteq> None"
    then obtain l1 l2 where l: "halt_lang r1 = Some l1" "halt_lang r2 = Some l2"
      by auto
    let ?k1 = "(halt_kurz_von1 r1, l1)" and ?k2 = "(halt_kurz_von1 r2, l2)"
    from r l have k1: "?k1 \<in> {k. \<exists>r \<in> set df. group_key r = Some k}"
      and k2: "?k2 \<in> {k. \<exists>r \<in> set df. group_key r = Some k}"
      by (auto simp: group_key_Some_iff)
    from h have "fst ?k1 = fst ?k2" by simp
    with inj have "?k1 = ?k2"
      using k1 k2 by (rule inj_onD)
    with l show "halt_lang r1 = halt_lang r2" by simp
  qed
next
  assume sn: "single_named df"
  show "inj_on fst {k. \<exists>r \<in> set df. group_key r = Some k}"
  proof (rule inj_onI)
    fix k1 k2
    assume "k1 \<in> {k. \<exists>r \<in> set df. group_key r = Some k}"
      and "k2 \<in> {k. \<exists>r \<in> set df. group_key r = Some k}" and eq: "fst k1 = fst k2"
    then obtain r1 r2 where r: "r1 \<in> set df" "r2 \<in> set df"
      and k: "halt_lang r1 = Some (snd k1)" "halt_kurz_von1 r1 = fst k1"
        "halt_lang r2 = Some (snd k2)" "halt_kurz_von1 r2 = fst k2"
      by (auto simp: group_key_Some_iff)
    with sn eq have "halt_lang r1 = halt_lang r2"
      unfolding single_named_def by (metis option.distinct(1))
    with k eq show "k1 = k2"
      by (simp add: prod_eq_iff)
  qed
qed

lemma conts_index_distinct:
  "distinct (map fst (set_index_von1 (groupby_mean df))) \<longleftrightarrow> single_named df"
proof -
  let ?keys = "sort (remdups (dropna (map group_key df)))"
  have "distinct (map fst ?keys) \<longleftrightarrow> inj_on fst (set ?keys)"
    by (simp add: distinct_map)
  also have "\<dots> \<longleftrightarrow> single_named df"
    unfolding keys_set by (rule keys_inj_iff)
  finally show ?thesis by (simp add: conts_index)
qed

lemma conts_rows:
  "set_index_von1 (groupby_mean df) =
     map (\<lambda>k. (fst k,
           \<lparr>c_halt_lang = Some (snd k),
            c_holdup_stop = mean (map holdup_stop (filter (\<lambda>r. group_key r = Some k) df)),
            c_holdup_trajectory = mean (map holdup_trajectory (filter (\<lambda>r. group_key r = Some k) df)),
            c_total_holdup = mean (map total_holdup (filter (\<lambda>r. group_key r = Some k) df))\<rparr>))
         (sort (remdups (dropna (map group_key df))))"
  by (auto simp: set_index_von1_def groupby_mean_def Let_def split: prod.splits)

lemma group_rows_named:
  assumes sn: "single_named df" and r: "r \<in> set df" "halt_lang r = Some l"
  shows "filter (\<lambda>r'. group_key r' = Some (halt_kurz_von1 r, l)) df = named_rows df (halt_kurz_von1 r)"
  unfolding named_rows_def
proof (rule filter_cong [OF refl])
  fix r' assume r': "r' \<in> set df"
  show "(group_key r' = Some (halt_kurz_von1 r, l)) =
        (halt_kurz_von1 r' = halt_kurz_von1 r \<and> halt_lang r' \<noteq> None)"
  proof
    assume "group_key r' = Some (halt_kurz_von1 r, l)"
    then show "halt_kurz_von1 r' = halt_kurz_von1 r \<and> halt_lang r' \<noteq> None"
      by (simp add: group_key_Some_iff)
  next
    assume h: "halt_kurz_von1 r' = halt_kurz_von1 r \<and> halt_lang r' \<noteq> None"
    with sn r r' have "halt_lang r' = halt_lang r"
      unfolding single_named_def by (metis option.distinct(1))
    with h r show "group_key r' = Some (halt_kurz_von1 r, l)"
      by (simp add: group_key_Some_iff)
  qed
qed

lemma conts_lookup:
  assumes sn: "single_named df"
  shows "(case map_of (set_index_von1 (groupby_mean df)) s of None \<Rightarrow> null_row | Some row \<Rightarrow> row)
           = stop_row df s"
proof (cases "named_rows df s")
  case Nil
  have "s \<notin> fst ` set (set_index_von1 (groupby_mean df))"
  proof
    assume "s \<in> fst ` set (set_index_von1 (groupby_mean df))"
    then have "s \<in> set (map fst (set_index_von1 (groupby_mean df)))"
      by simp
    then have "s \<in> fst ` {k. \<exists>r \<in> set df. group_key r = Some k}"
      by (simp only: conts_index set_map keys_set)
    then obtain r l where "r \<in> set df" "halt_kurz_von1 r = s" "halt_lang r = Some l"
      by (auto simp: group_key_Some_iff)
    then have "r \<in> set (named_rows df s)"
      by (simp add: named_rows_def)
    with Nil show False by simp
  qed
  then have "map_of (set_index_von1 (groupby_mean df)) s = None"
    by (simp add: map_of_eq_None_iff)
  with Nil show ?thesis
    by (simp add: stop_row_def)
next
  case (Cons r rs)
  then have "r \<in> set (named_rows df s)" by simp
  then obtain l where r: "r \<in> set df" "halt_kurz_von1 r = s" "halt_lang r = Some l"
    by (auto simp: named_rows_def)
  let ?k = "(s, l)"
  let ?row = "\<lparr>c_halt_lang = Some l,
            c_holdup_stop = mean (map holdup_stop (named_rows df s)),
            c_holdup_trajectory = mean (map holdup_trajectory (named_rows df s)),
            c_total_holdup = mean (map total_holdup (named_rows df s))\<rparr>"
  from r have "?k \<in> set (sort (remdups (dropna (map group_key df))))"
    unfolding keys_set by (auto simp: group_key_Some_iff)
  moreover from group_rows_named [OF sn r(1,3)] r(2)
  have "filter (\<lambda>r'. group_key r' = Some ?k) df = named_rows df s"
    by simp
  ultimately have "(s, ?row) \<in> set (set_index_von1 (groupby_mean df))"
    unfolding conts_rows by (auto simp: image_iff intro!: bexI [of _ ?k])
  moreover from sn have "distinct (map fst (set_index_von1 (groupby_mean df)))"
    by (simp add: conts_index_distinct)
  ultimately have "map_of (set_index_von1 (groupby_mean df)) s = Some ?row"
    by (rule map_of_is_SomeI [rotated])
  with Cons r(3) show ?thesis
    by (simp add: stop_row_def)
qed

lemma and_then_simps:
  "and_then Hangs f = Hangs"
  "and_then (Raises e) f = Raises e"
  "and_then (Returns v) f = f v"
  by (simp_all add: and_then_def)

lemma and_then_Returns_iff:
  "and_then m f = Returns y \<longleftrightarrow> (\<exists>v. m = Returns v \<and> f v = Returns y)"
  by (auto simp: and_then_def split: option.splits sum.splits)

lemma stops_on_route_Returns_distinct:
  "stops_on_route route data = Returns stops \<Longrightarrow> distinct stops"
  by (rule chain_distinct) (rule stops_on_route_chain)

lemma contributions_eq:
  "contributions route data =
     and_then (stops_on_route route data) (\<lambda>stops.
       if single_named (route_rows route data)
       then Returns (map (\<lambda>s. (s, stop_row (route_rows route data) s)) stops)
       else Raises ValueError)"
proof (cases "stops_on_route route data")
  case None
  then show ?thesis by (simp add: contributions_def and_then_simps)
next
  case (Some res)
  show ?thesis
  proof (cases res)
    case (Inl e)
    with Some show ?thesis by (simp add: contributions_def and_then_simps)
  next
    case (Inr stops)
    with Some have "distinct stops"
      by (simp add: stops_on_route_Returns_distinct)
    with Some Inr show ?thesis
      by (simp add: contributions_def and_then_simps reindex_distinct_target
          conts_index_distinct conts_lookup)
  qed
qed

lemma contributions_Returns_iff:
  "contributions route data = Returns tbl \<longleftrightarrow>
     (\<exists>stops. stops_on_route route data = Returns stops \<and>
        single_named (route_rows route data) \<and>
        tbl = map (\<lambda>s. (s, stop_row (route_rows route data) s)) stops)"
  by (auto simp: contributions_eq and_then_Returns_iff split: if_splits)

lemma unnamed_successors:
  "successor_map ''A - D'' unnamed_trips ''A'' = Some ''B''"
  "successor_map ''A - D'' unnamed_trips ''B'' = Some ''C''"
  "successor_map ''A - D'' unnamed_trips ''C'' = Some ''D''"
  by (simp_all add: successor_map_def route_rows_def trip_def unnamed_trips_def)

lemma unnamed_stops:
  "stops_on_route ''A - D'' unnamed_trips = Returns [''A'', ''B'', ''C'']"
  by (simp add: stops_on_route_Returns_iff split_AD unnamed_successors)

lemma unnamed_single_named: "single_named (route_rows ''A - D'' unnamed_trips)"
  by (simp add: single_named_def route_rows_def trip_def unnamed_trips_def)

lemma unnamed_B: "named_rows (route_rows ''A - D'' unnamed_trips) ''B'' = []"
  by (simp add: named_rows_def route_rows_def trip_def unnamed_trips_def)

section \<open>Claims about the contribution aggregator\<close>

text \<open>
  C3.  Whenever \<^verbatim>\<open>contributions\<close> returns a table, \<^verbatim>\<open>stops_on_route\<close> returns a sequence
  of the same length, the index of the table is that sequence in that order, and a stop
  of the sequence that has no observation in the grouped frame (none of its observations
  on the route carries a long name) keeps its row, with every column missing.  The table
  is returned whenever \<^verbatim>\<open>stops_on_route\<close> returns and no stop code of the route comes
  with two long names.
\<close>

theorem contributions_index:
  "(contributions route data = Returns tbl \<longrightarrow>
      (\<exists>stops. stops_on_route route data = Returns stops \<and>
         length tbl = length stops \<and> map fst tbl = stops \<and>
         (\<forall>i < length stops. named_rows (route_rows route data) (stops ! i) = [] \<longrightarrow>
              snd (tbl ! i) = null_row))) \<and>
   (stops_on_route route data = Returns stops' \<and> single_named (route_rows route data) \<longrightarrow>
      (\<exists>tbl'. contributions route data = Returns tbl'))"
proof (intro conjI impI)
  assume "contributions route data = Returns tbl"
  then obtain stops where s: "stops_on_route route data = Returns stops"
    and t: "tbl = map (\<lambda>s. (s, stop_row (route_rows route data) s)) stops"
    by (auto simp: contributions_Returns_iff)
  from t have "length tbl = length stops" "map fst tbl = stops"
    by (simp_all add: comp_def)
  moreover from t have "\<forall>i < length stops.
      named_rows (route_rows route data) (stops ! i) = [] \<longrightarrow> snd (tbl ! i) = null_row"
    by (simp add: stop_row_def)
  ultimately show "\<exists>stops. stops_on_route route data = Returns stops \<and>
         length tbl = length stops \<and> map fst tbl = stops \<and>
         (\<forall>i < length stops. named_rows (route_rows route data) (stops ! i) = [] \<longrightarrow>
              snd (tbl ! i) = null_row)"
    using s by blast
next
  assume "stops_on_route route data = Returns stops' \<and> single_named (route_rows route data)"
  then show "\<exists>tbl'. contributions route data = Returns tbl'"
    by (simp add: contributions_Returns_iff)
qed

theorem contributions_index_witness:
  "\<exists>tbl. contributions ''A - D'' unnamed_trips = Returns tbl \<and> length tbl = 3 \<and>
     map fst tbl = [''A'', ''B'', ''C''] \<and> snd (tbl ! 1) = null_row"
proof -
  from contributions_index [of "''A - D''" unnamed_trips _ "[''A'', ''B'', ''C'']"]
    unnamed_stops unnamed_single_named
  obtain tbl where t: "contributions ''A - D'' unnamed_trips = Returns tbl"
    by blast
  from contributions_index [of "''A - D''" unnamed_trips tbl] t unnamed_stops
  have "length tbl = 3" "map fst tbl = [''A'', ''B'', ''C'']"
    and "\<forall>i < 3. named_rows (route_rows ''A - D'' unnamed_trips) ([''A'', ''B'', ''C''] ! i) = []
       \<longrightarrow> snd (tbl ! i) = null_row"
    by auto
  with unnamed_B t show ?thesis
    by auto
qed

section \<open>The sum of \<^verbatim>\<open>delay_along_route\<close> in closed form\<close>

lemma dropna_map_option: "dropna (map (map_option f) xs) = map f (dropna xs)"
  by (induction xs rule: dropna.induct) simp_all

lemma foldl_fadd_missing:
  "float64 s = s \<Longrightarrow>
     foldl fadd s (map (\<lambda>x. case x of None \<Rightarrow> 0 | Some v \<Rightarrow> v) xs) = foldl fadd s (dropna xs)"
proof (induction xs arbitrary: s)
  case Nil
  show ?case by simp
next
  case (Cons x xs)
  show ?case
  proof (cases x)
    case None
    with Cons show ?thesis by (simp add: fadd_def)
  next
    case (Some v)
    have "float64 (fadd s v) = fadd s v"
      by (simp add: fadd_def float64_idem)
    from Cons.IH [OF this] Some show ?thesis by simp
  qed
qed

lemma fsum_dropna:
  "fsum (dropna xs) = fsum (map (\<lambda>x. case x of None \<Rightarrow> 0 | Some v \<Rightarrow> v) xs)"
  by (simp add: fsum_def foldl_fadd_missing)

lemma frame_sum_nth:
  "j < 3 \<Longrightarrow> frame_sum rows ! j = fsum (dropna (map (\<lambda>row. row ! j) rows))"
  by (simp add: frame_sum_def)

lemma drop_halt_lang_rows:
  "drop_halt_lang conts =
     map (\<lambda>row. [c_holdup_stop row, c_holdup_trajectory row, c_total_holdup row]) (map snd conts)"
  by (simp add: drop_halt_lang_def case_prod_unfold)

lemma column_sum:
  "j < 3 \<Longrightarrow>
   frame_sum (if absolute then frame_abs (drop_halt_lang conts) else drop_halt_lang conts) ! j =
     fsum (dropna (map (\<lambda>row.
        (if absolute
         then map_option abs ([c_holdup_stop row, c_holdup_trajectory row, c_total_holdup row] ! j)
         else [c_holdup_stop row, c_holdup_trajectory row, c_total_holdup row] ! j))
       (map snd conts)))"
proof -
  assume j: "j < 3"
  then have "j = 0 \<or> j = 1 \<or> j = 2" by arith
  then show ?thesis
    using j by (elim disjE) (simp_all add: frame_sum_nth frame_abs_def drop_halt_lang_rows comp_def)
qed

lemma delay_along_route_eq:
  "delay_along_route route data which_holdup absolute =
     and_then (contributions route data) (\<lambda>conts.
       Returns (fsum (dropna (map (\<lambda>row.
          (if absolute then map_option abs (holdup_column which_holdup row)
           else holdup_column which_holdup row)) (map snd conts)))))"
proof -
  let ?idx = "if which_holdup = ''at_stop'' then 0 else if which_holdup = ''on_trajectory'' then 1
      else (2::nat)"
  have idx: "?idx < 3" by simp
  have col: "[c_holdup_stop row, c_holdup_trajectory row, c_total_holdup row] ! ?idx
       = holdup_column which_holdup row" for row
    by (simp add: holdup_column_def)
  have "delay_along_route route data which_holdup absolute =
      and_then (contributions route data) (\<lambda>conts. Returns
        (frame_sum (if absolute then frame_abs (drop_halt_lang conts) else drop_halt_lang conts)
           ! ?idx))"
    by (simp add: delay_along_route_def Let_def)
  also have "\<dots> = and_then (contributions route data) (\<lambda>conts.
       Returns (fsum (dropna (map (\<lambda>row.
          (if absolute then map_option abs (holdup_column which_holdup row)
           else holdup_column which_holdup row)) (map snd conts)))))"
    by (simp only: column_sum [OF idx] col)
  finally show ?thesis .
qed

lemma delay_plain:
  "delay_along_route route data which_holdup False =
     and_then (contributions route data) (\<lambda>conts.
       Returns (fsum (dropna (map (holdup_column which_holdup) (map snd conts)))))"
  by (simp add: delay_along_route_eq)

lemma holdup_column_simps:
  "holdup_column ''at_stop'' = c_holdup_stop"
  "holdup_column ''on_trajectory'' = c_holdup_trajectory"
  "holdup_column ''total'' = c_total_holdup"
  by (simp_all add: holdup_column_def)

lemma delay_along_route_float:
  assumes "delay_along_route route data which_holdup absolute = Returns num"
  shows "float64 num = num"
proof -
  from assms have "\<exists>xs. num = fsum xs"
    unfolding delay_along_route_eq and_then_Returns_iff by blast
  then show ?thesis by (auto simp only: float64_fsum)
qed

section \<open>How far the total delay is from the sum of the two others\<close>

lemma named_rows_other:
  "s' \<noteq> s \<Longrightarrow> named_rows (filter (\<lambda>r. halt_kurz_von1 r \<noteq> s) df) s' = named_rows df s'"
  unfolding named_rows_def filter_filter
  by (rule filter_cong) auto

lemma groups_disjoint:
  fixes w :: "obs \<Rightarrow> real"
  assumes "\<And>r. 0 \<le> w r"
  shows "distinct stops \<Longrightarrow>
    (\<Sum>s\<leftarrow>stops. \<Sum>r\<leftarrow>named_rows df s. w r) \<le> (\<Sum>r\<leftarrow>df. w r)"
proof (induction stops arbitrary: df)
  case Nil
  have "0 \<le> (\<Sum>r\<leftarrow>df. w r)"
    by (rule sum_list_nonneg) (use assms in auto)
  then show ?case by simp
next
  case (Cons s stops)
  let ?rest = "filter (\<lambda>r. halt_kurz_von1 r \<noteq> s) df"
  from Cons.prems have s: "s \<notin> set stops" and d: "distinct stops" by simp_all
  have "(\<Sum>s'\<leftarrow>stops. \<Sum>r\<leftarrow>named_rows df s'. w r) =
      (\<Sum>s'\<leftarrow>stops. \<Sum>r\<leftarrow>named_rows ?rest s'. w r)"
  proof (rule arg_cong [where f = sum_list], rule map_cong [OF refl])
    fix s' assume "s' \<in> set stops"
    with s have "s' \<noteq> s" by auto
    then show "(\<Sum>r\<leftarrow>named_rows df s'. w r) = (\<Sum>r\<leftarrow>named_rows ?rest s'. w r)"
      by (simp add: named_rows_other)
  qed
  also have "\<dots> \<le> (\<Sum>r\<leftarrow>?rest. w r)"
    using d by (rule Cons.IH)
  finally have rest: "(\<Sum>s'\<leftarrow>stops. \<Sum>r\<leftarrow>named_rows df s'. w r) \<le> (\<Sum>r\<leftarrow>?rest. w r)" .
  have "named_rows df s = filter (\<lambda>r. halt_lang r \<noteq> None) (filter (\<lambda>r. halt_kurz_von1 r = s) df)"
    unfolding named_rows_def filter_filter by (rule filter_cong) auto
  then have "(\<Sum>r\<leftarrow>named_rows df s. w r) \<le> (\<Sum>r\<leftarrow>filter (\<lambda>r. halt_kurz_von1 r = s) df. w r)"
    using sum_list_filter_le [where w = w and P = "\<lambda>r. halt_lang r \<noteq> None"
        and xs = "filter (\<lambda>r. halt_kurz_von1 r = s) df", OF assms]
    by (simp only:)
  with rest sum_list_partition [where P = "\<lambda>r. halt_kurz_von1 r = s" and xs = df and w = w]
  show ?case
    by simp
qed

lemma total_is_sum_iff:
  "total_is_sum r \<longleftrightarrow>
     (\<exists>a b. holdup_stop r = Some a \<and> holdup_trajectory r = Some b \<and>
            total_holdup r = Some (fadd a b))"
  by (auto simp: total_is_sum_def split: option.splits)

lemma group_columns:
  assumes "\<forall>r \<in> set g. total_is_sum r"
  shows "map holdup_stop g = map Some (map (\<lambda>r. the (holdup_stop r)) g)"
    and "map holdup_trajectory g = map Some (map (\<lambda>r. the (holdup_trajectory r)) g)"
    and "map total_holdup g =
         map Some (map (\<lambda>r. fadd (the (holdup_stop r)) (the (holdup_trajectory r))) g)"
    and "map holdup_size g = map (\<lambda>r. \<bar>the (holdup_stop r)\<bar> + \<bar>the (holdup_trajectory r)\<bar>) g"
  using assms by (auto simp: total_is_sum_iff holdup_size_def)

lemma stop_row_null: "named_rows df s = [] \<Longrightarrow> stop_row df s = null_row"
  by (simp add: stop_row_def)

lemma stop_row_means:
  assumes "\<forall>r \<in> set df. total_is_sum r" and "named_rows df s \<noteq> []"
  shows "\<exists>ma mb mc.
      c_holdup_stop (stop_row df s) = Some ma \<and>
      c_holdup_trajectory (stop_row df s) = Some mb \<and>
      c_total_holdup (stop_row df s) = Some mc \<and>
      \<bar>mc - (ma + mb)\<bar> \<le> 2 * rounding_bound (length (named_rows df s) + 2) *
          (\<Sum>r\<leftarrow>named_rows df s. holdup_size r) \<and>
      \<bar>ma\<bar> + \<bar>mb\<bar> + \<bar>mc\<bar> \<le> 2 * (1 + rounding_bound (length (named_rows df s) + 2)) *
          (\<Sum>r\<leftarrow>named_rows df s. holdup_size r)"
proof -
  let ?g = "named_rows df s"
  let ?ps = "map (\<lambda>r. (the (holdup_stop r), the (holdup_trajectory r))) ?g"
  have "set ?g \<subseteq> set df" by (auto simp: named_rows_def)
  with assms(1) have g: "\<forall>r \<in> set ?g. total_is_sum r" by auto
  from assms(2) have ne: "?ps \<noteq> []" by simp
  have len: "length ?ps = length ?g" by simp
  have cols:
    "map holdup_stop ?g = map Some (map fst ?ps)"
    "map holdup_trajectory ?g = map Some (map snd ?ps)"
    "map total_holdup ?g = map Some (map (\<lambda>p. fadd (fst p) (snd p)) ?ps)"
    "map holdup_size ?g = map (\<lambda>p. \<bar>fst p\<bar> + \<bar>snd p\<bar>) ?ps"
    using group_columns [OF g] by (simp_all add: comp_def)
  obtain r rs where rs: "?g = r # rs"
    using assms(2) by (cases ?g) auto
  have row:
    "c_holdup_stop (stop_row df s) = mean (map holdup_stop ?g)"
    "c_holdup_trajectory (stop_row df s) = mean (map holdup_trajectory ?g)"
    "c_total_holdup (stop_row df s) = mean (map total_holdup ?g)"
    by (simp_all add: stop_row_def rs)
  have means:
    "c_holdup_stop (stop_row df s) = Some (fdiv (fsum (map fst ?ps)) (real (length ?ps)))"
    "c_holdup_trajectory (stop_row df s) = Some (fdiv (fsum (map snd ?ps)) (real (length ?ps)))"
    "c_total_holdup (stop_row df s) =
       Some (fdiv (fsum (map (\<lambda>p. fadd (fst p) (snd p)) ?ps)) (real (length ?ps)))"
  proof -
    from ne have "map fst ?ps \<noteq> []" by (simp only: map_is_Nil_conv not_False_eq_True)
    from mean_Some [OF this]
    show "c_holdup_stop (stop_row df s) = Some (fdiv (fsum (map fst ?ps)) (real (length ?ps)))"
      unfolding row cols by (simp only: length_map)
    from ne have "map snd ?ps \<noteq> []" by (simp only: map_is_Nil_conv not_False_eq_True)
    from mean_Some [OF this]
    show "c_holdup_trajectory (stop_row df s) =
        Some (fdiv (fsum (map snd ?ps)) (real (length ?ps)))"
      unfolding row cols by (simp only: length_map)
    from ne have "map (\<lambda>p. fadd (fst p) (snd p)) ?ps \<noteq> []"
      by (simp only: map_is_Nil_conv not_False_eq_True)
    from mean_Some [OF this]
    show "c_total_holdup (stop_row df s) =
        Some (fdiv (fsum (map (\<lambda>p. fadd (fst p) (snd p)) ?ps)) (real (length ?ps)))"
      unfolding row cols by (simp only: length_map)
  qed
  have size: "(\<Sum>r\<leftarrow>?g. holdup_size r) = (\<Sum>p\<leftarrow>?ps. \<bar>fst p\<bar> + \<bar>snd p\<bar>)"
    by (simp only: cols(4))
  show ?thesis
    unfolding means size len [symmetric]
    using group_means [OF ne] by blast
qed

lemma table_columns:
  assumes "\<forall>r \<in> set df. total_is_sum r"
  shows "dropna (map c_holdup_stop (map (stop_row df) stops)) =
           map (\<lambda>s. the (c_holdup_stop (stop_row df s))) (filter (\<lambda>s. named_rows df s \<noteq> []) stops)"
    and "dropna (map c_holdup_trajectory (map (stop_row df) stops)) =
           map (\<lambda>s. the (c_holdup_trajectory (stop_row df s)))
             (filter (\<lambda>s. named_rows df s \<noteq> []) stops)"
    and "dropna (map c_total_holdup (map (stop_row df) stops)) =
           map (\<lambda>s. the (c_total_holdup (stop_row df s)))
             (filter (\<lambda>s. named_rows df s \<noteq> []) stops)"
proof -
  have row: "(named_rows df s = [] \<longrightarrow>
        c_holdup_stop (stop_row df s) = None \<and> c_holdup_trajectory (stop_row df s) = None \<and>
        c_total_holdup (stop_row df s) = None) \<and>
      (named_rows df s \<noteq> [] \<longrightarrow>
        (\<exists>ma mb mc. c_holdup_stop (stop_row df s) = Some ma \<and>
           c_holdup_trajectory (stop_row df s) = Some mb \<and>
           c_total_holdup (stop_row df s) = Some mc))" for s
    using stop_row_means [OF assms, of s] by (auto simp: stop_row_null null_row_def)
  show "dropna (map c_holdup_stop (map (stop_row df) stops)) =
           map (\<lambda>s. the (c_holdup_stop (stop_row df s))) (filter (\<lambda>s. named_rows df s \<noteq> []) stops)"
  proof (induction stops)
    case Nil
    show ?case by simp
  next
    case (Cons s stops)
    with row [of s] show ?case by (cases "named_rows df s = []") auto
  qed
  show "dropna (map c_holdup_trajectory (map (stop_row df) stops)) =
           map (\<lambda>s. the (c_holdup_trajectory (stop_row df s)))
             (filter (\<lambda>s. named_rows df s \<noteq> []) stops)"
  proof (induction stops)
    case Nil
    show ?case by simp
  next
    case (Cons s stops)
    with row [of s] show ?case by (cases "named_rows df s = []") auto
  qed
  show "dropna (map c_total_holdup (map (stop_row df) stops)) =
           map (\<lambda>s. the (c_total_holdup (stop_row df s)))
             (filter (\<lambda>s. named_rows df s \<noteq> []) stops)"
  proof (induction stops)
    case Nil
    show ?case by simp
  next
    case (Cons s stops)
    with row [of s] show ?case by (cases "named_rows df s = []") auto
  qed
qed

lemma holdup_size_nonneg: "0 \<le> holdup_size r"
  by (simp add: holdup_size_def split: option.splits)

lemma groups_count:
  assumes "distinct stops"
  shows "length (filter (\<lambda>s. named_rows df s \<noteq> []) stops) \<le> length df"
proof -
  let ?qs = "filter (\<lambda>s. named_rows df s \<noteq> []) stops"
  have "real (length ?qs) = (\<Sum>s\<leftarrow>?qs. 1)"
    by (simp add: sum_list_triv)
  also have "\<dots> \<le> (\<Sum>s\<leftarrow>?qs. \<Sum>r\<leftarrow>named_rows df s. 1)"
  proof (rule sum_list_mono)
    fix s assume "s \<in> set ?qs"
    then have "named_rows df s \<noteq> []" by simp
    then have "1 \<le> length (named_rows df s)" by (cases "named_rows df s") simp_all
    then show "(1::real) \<le> (\<Sum>r\<leftarrow>named_rows df s. 1)" by (simp add: sum_list_triv)
  qed
  also have "\<dots> \<le> (\<Sum>r\<leftarrow>df. 1)"
    using assms by (intro groups_disjoint) simp_all
  also have "\<dots> = real (length df)"
    by (simp add: sum_list_triv)
  finally show ?thesis by simp
qed

lemma table_additive:
  assumes total: "\<forall>r \<in> set df. total_is_sum r" and dist: "distinct stops"
  shows "\<bar>fsum (dropna (map c_total_holdup (map (stop_row df) stops))) -
          (fsum (dropna (map c_holdup_stop (map (stop_row df) stops))) +
           fsum (dropna (map c_holdup_trajectory (map (stop_row df) stops))))\<bar>
           \<le> 2 * rounding_bound (2 * length df + 2) * (\<Sum>r\<leftarrow>df. holdup_size r)"
proof -
  let ?qs = "filter (\<lambda>s. named_rows df s \<noteq> []) stops"
  let ?a = "\<lambda>s. the (c_holdup_stop (stop_row df s))"
  let ?b = "\<lambda>s. the (c_holdup_trajectory (stop_row df s))"
  let ?c = "\<lambda>s. the (c_total_holdup (stop_row df s))"
  let ?w = "\<lambda>s. \<Sum>r\<leftarrow>named_rows df s. holdup_size r"
  define n where "n = length df"
  define g where "g = rounding_bound (n + 2)"
  define D where "D = (\<Sum>r\<leftarrow>df. holdup_size r)"
  define W where "W = (\<Sum>s\<leftarrow>?qs. ?w s)"
  have g0: "0 \<le> g" unfolding g_def by (rule rounding_bound_nonneg)
  have w0: "0 \<le> ?w s" for s
    by (rule sum_list_nonneg) (auto simp: holdup_size_nonneg)
  have W0: "0 \<le> W" unfolding W_def by (rule sum_list_nonneg) (use w0 in auto)
  have small: "rounding_bound (length (named_rows df s) + 2) \<le> g" for s
    unfolding g_def n_def by (rule rounding_bound_mono) (simp add: named_rows_def)
  have row: "\<bar>?c s - (?a s + ?b s)\<bar> \<le> 2 * g * ?w s \<and>
      \<bar>?a s\<bar> + \<bar>?b s\<bar> + \<bar>?c s\<bar> \<le> 2 * (1 + g) * ?w s" if "s \<in> set ?qs" for s
  proof -
    from that have "named_rows df s \<noteq> []" by simp
    from stop_row_means [OF total this] obtain ma mb mc where
      m: "c_holdup_stop (stop_row df s) = Some ma" "c_holdup_trajectory (stop_row df s) = Some mb"
        "c_total_holdup (stop_row df s) = Some mc"
      and e: "\<bar>mc - (ma + mb)\<bar> \<le> 2 * rounding_bound (length (named_rows df s) + 2) * ?w s"
      and d: "\<bar>ma\<bar> + \<bar>mb\<bar> + \<bar>mc\<bar> \<le> 2 * (1 + rounding_bound (length (named_rows df s) + 2)) * ?w s"
      by blast
    have "rounding_bound (length (named_rows df s) + 2) * ?w s \<le> g * ?w s"
      using small w0 by (rule mult_right_mono)
    with e d show ?thesis
      unfolding m option.sel by (simp add: algebra_simps)
  qed
  have "\<bar>fsum (map ?c ?qs) - (fsum (map ?a ?qs) + fsum (map ?b ?qs))\<bar>
      \<le> (rounding_bound (length ?qs) * (2 * (1 + g)) + 2 * g) * W"
    unfolding W_def
    by (rule column_sums) (use row in auto)
  also have "\<dots> \<le> (rounding_bound n * (2 * (1 + g)) + 2 * g) * W"
  proof (rule mult_right_mono [OF _ W0])
    have "rounding_bound (length ?qs) \<le> rounding_bound n"
      unfolding n_def using dist by (intro rounding_bound_mono groups_count)
    then have "rounding_bound (length ?qs) * (2 * (1 + g)) \<le> rounding_bound n * (2 * (1 + g))"
      using g0 by (intro mult_right_mono) simp_all
    then show "rounding_bound (length ?qs) * (2 * (1 + g)) + 2 * g
        \<le> rounding_bound n * (2 * (1 + g)) + 2 * g"
      by simp
  qed
  also have "rounding_bound n * (2 * (1 + g)) + 2 * g = 2 * rounding_bound (n + (n + 2))"
  proof -
    have "rounding_bound (n + (n + 2)) = rounding_bound n * (1 + g) + g"
      unfolding g_def by (rule rounding_bound_add)
    then show ?thesis by (simp only: algebra_simps)
  qed
  also have "2 * rounding_bound (n + (n + 2)) * W \<le> 2 * rounding_bound (n + (n + 2)) * D"
  proof (rule mult_left_mono)
    show "W \<le> D"
      unfolding W_def D_def using dist
      by (intro groups_disjoint) (simp_all add: holdup_size_nonneg)
    show "0 \<le> 2 * rounding_bound (n + (n + 2))"
      using rounding_bound_nonneg [of "n + (n + 2)"] by simp
  qed
  finally have "\<bar>fsum (map ?c ?qs) - (fsum (map ?a ?qs) + fsum (map ?b ?qs))\<bar>
      \<le> 2 * rounding_bound (n + (n + 2)) * D" .
  moreover have "n + (n + 2) = 2 * length df + 2" by (simp add: n_def)
  ultimately show ?thesis
    unfolding table_columns [OF total] D_def by simp
qed

section \<open>Example tables of \<^verbatim>\<open>contributions\<close> and their delays\<close>

lemma example_single_named: "single_named (route_rows ''A - D'' example_trips)"
  by (simp add: single_named_def route_rows_def trip_def example_trips_def)

lemma example_rows:
  "stop_row (route_rows ''A - D'' example_trips) ''A'' =
     \<lparr>c_halt_lang = Some ''Stop A'', c_holdup_stop = Some 3, c_holdup_trajectory = Some 0,
      c_total_holdup = Some 3\<rparr>"
  "stop_row (route_rows ''A - D'' example_trips) ''B'' =
     \<lparr>c_halt_lang = Some ''Stop B'', c_holdup_stop = Some 2, c_holdup_trajectory = Some (- 1),
      c_total_holdup = Some 1\<rparr>"
  "stop_row (route_rows ''A - D'' example_trips) ''C'' =
     \<lparr>c_halt_lang = Some ''Stop C'', c_holdup_stop = Some (- 2), c_holdup_trajectory = Some 0,
      c_total_holdup = Some (- 2)\<rparr>"
  by (simp_all add: stop_row_def named_rows_def route_rows_def trip_def example_trips_def
      mean_def float_arith)

lemma example_table:
  "contributions ''A - D'' example_trips = Returns
     [(''A'', \<lparr>c_halt_lang = Some ''Stop A'', c_holdup_stop = Some 3, c_holdup_trajectory = Some 0,
              c_total_holdup = Some 3\<rparr>),
      (''B'', \<lparr>c_halt_lang = Some ''Stop B'', c_holdup_stop = Some 2,
              c_holdup_trajectory = Some (- 1), c_total_holdup = Some 1\<rparr>),
      (''C'', \<lparr>c_halt_lang = Some ''Stop C'', c_holdup_stop = Some (- 2),
              c_holdup_trajectory = Some 0, c_total_holdup = Some (- 2)\<rparr>)]"
  by (simp add: contributions_eq example_stops and_then_simps example_single_named example_rows)

lemma example_delays:
  "delay_along_route ''A - D'' example_trips ''total'' False = Returns 2"
  "delay_along_route ''A - D'' example_trips ''at_stop'' False = Returns 3"
  "delay_along_route ''A - D'' example_trips ''on_trajectory'' False = Returns (- 1)"
  "delay_along_route ''A - D'' example_trips ''total'' True = Returns 6"
  "delay_along_route ''A - D'' example_trips ''at_stop'' True = Returns 7"
  "delay_along_route ''A - D'' example_trips ''on_trajectory'' True = Returns 1"
  by (simp_all add: delay_along_route_eq example_table and_then_simps holdup_column_simps
      float_arith)

lemma split_AB: "split ''A - B'' = [''A'', ''-'', ''B'']"
  by (simp add: split_def whitespace_def)

lemma thirds_successors: "successor_map ''A - B'' thirds_trips ''A'' = Some ''B''"
  by (simp add: successor_map_def route_rows_def trip_def thirds_trips_def)

lemma thirds_stops: "stops_on_route ''A - B'' thirds_trips = Returns [''A'']"
  by (simp add: stops_on_route_Returns_iff split_AB thirds_successors)

lemma thirds_single_named: "single_named (route_rows ''A - B'' thirds_trips)"
  by (simp add: single_named_def route_rows_def trip_def thirds_trips_def)

lemma thirds_row:
  "stop_row (route_rows ''A - B'' thirds_trips) ''A'' =
     \<lparr>c_halt_lang = Some ''Stop A'', c_holdup_stop = Some (float64 (1 / 3)),
      c_holdup_trajectory = Some (- 1), c_total_holdup = Some (float64 (- (2 / 3)))\<rparr>"
  by (simp add: stop_row_def named_rows_def route_rows_def trip_def thirds_trips_def
      mean_def float_arith)

lemma thirds_table:
  "contributions ''A - B'' thirds_trips = Returns
     [(''A'', \<lparr>c_halt_lang = Some ''Stop A'', c_holdup_stop = Some (float64 (1 / 3)),
              c_holdup_trajectory = Some (- 1), c_total_holdup = Some (float64 (- (2 / 3)))\<rparr>)]"
  by (simp add: contributions_eq thirds_stops and_then_simps thirds_single_named thirds_row)

lemma thirds_delays:
  "delay_along_route ''A - B'' thirds_trips ''total'' False =
     Returns (- (6004799503160661 / 9007199254740992))"
  "delay_along_route ''A - B'' thirds_trips ''at_stop'' False =
     Returns (6004799503160661 / 18014398509481984)"
  "delay_along_route ''A - B'' thirds_trips ''on_trajectory'' False = Returns (- 1)"
  by (simp_all add: delay_along_route_eq thirds_table and_then_simps holdup_column_simps
      fsum_single float64_idem) (simp_all add: float64_thirds)

lemma thirds_float_sum:
  "fadd (6004799503160661 / 18014398509481984) (- 1) = - (6004799503160662 / 9007199254740992)"
  by (simp add: fadd_def float64_eval)

lemma abs_example_successors:
  "successor_map ''A - D'' (map abs_holdups example_trips) ''A'' = Some ''B''"
  "successor_map ''A - D'' (map abs_holdups example_trips) ''B'' = Some ''C''"
  "successor_map ''A - D'' (map abs_holdups example_trips) ''C'' = Some ''D''"
  by (simp_all add: successor_map_def route_rows_def trip_def example_trips_def abs_holdups_def)

lemma abs_example_stops:
  "stops_on_route ''A - D'' (map abs_holdups example_trips) = Returns [''A'', ''B'', ''C'']"
  by (simp add: stops_on_route_Returns_iff split_AD abs_example_successors)

lemma abs_example_single_named:
  "single_named (route_rows ''A - D'' (map abs_holdups example_trips))"
  by (simp add: single_named_def route_rows_def trip_def example_trips_def abs_holdups_def)

lemma abs_example_rows:
  "c_holdup_trajectory (stop_row (route_rows ''A - D'' (map abs_holdups example_trips)) ''A'') = Some 1"
  "c_holdup_trajectory (stop_row (route_rows ''A - D'' (map abs_holdups example_trips)) ''B'') =
     Some (float64 (7 / 3))"
  "c_holdup_trajectory (stop_row (route_rows ''A - D'' (map abs_holdups example_trips)) ''C'') = Some 0"
  by (simp_all add: stop_row_def named_rows_def route_rows_def trip_def example_trips_def
      abs_holdups_def mean_def float_arith)

lemma abs_example_sum:
  "fsum [1, float64 (7 / 3), 0] = 7505999378950827 / 2251799813685248"
  by (simp add: fsum_def fadd_def float64_thirds) (simp add: float64_eval)

lemma abs_example_delay:
  "delay_along_route ''A - D'' (map abs_holdups example_trips) ''on_trajectory'' False
     = Returns (fsum [1, float64 (7 / 3), 0])"
  by (simp add: delay_along_route_eq contributions_eq abs_example_stops and_then_simps
      abs_example_single_named holdup_column_simps comp_def abs_example_rows)

lemma delay_additive:
  assumes "\<forall>r \<in> set (route_rows route data). total_is_sum r"
    and "contributions route data = Returns conts"
  shows "\<exists>t s j.
      delay_along_route route data ''total'' False = Returns t \<and>
      delay_along_route route data ''at_stop'' False = Returns s \<and>
      delay_along_route route data ''on_trajectory'' False = Returns j \<and>
      \<bar>t - (s + j)\<bar> \<le> 2 * rounding_bound (2 * length (route_rows route data) + 2) *
          sum_list (map holdup_size (route_rows route data))"
proof -
  from assms(2) obtain stops where s: "stops_on_route route data = Returns stops"
    and "conts = map (\<lambda>s. (s, stop_row (route_rows route data) s)) stops"
    by (auto simp: contributions_Returns_iff)
  then have rows: "map snd conts = map (stop_row (route_rows route data)) stops"
    by (simp add: comp_def)
  from s have "distinct stops" by (rule stops_on_route_Returns_distinct)
  from table_additive [OF assms(1) this]
  have "\<bar>fsum (dropna (map c_total_holdup (map snd conts))) -
          (fsum (dropna (map c_holdup_stop (map snd conts))) +
           fsum (dropna (map c_holdup_trajectory (map snd conts))))\<bar>
           \<le> 2 * rounding_bound (2 * length (route_rows route data) + 2) *
          sum_list (map holdup_size (route_rows route data))"
    unfolding rows .
  moreover have
    "delay_along_route route data ''total'' False =
       Returns (fsum (dropna (map c_total_holdup (map snd conts))))"
    "delay_along_route route data ''at_stop'' False =
       Returns (fsum (dropna (map c_holdup_stop (map snd conts))))"
    "delay_along_route route data ''on_trajectory'' False =
       Returns (fsum (dropna (map c_holdup_trajectory (map snd conts))))"
    by (simp_all only: delay_plain assms(2) and_then_simps holdup_column_simps)
  ultimately show ?thesis by blast
qed

lemma delay_returns:
  "(\<exists>t. delay_along_route route data which_holdup absolute = Returns t) \<longleftrightarrow>
   (\<exists>conts. contributions route data = Returns conts)"
  by (auto simp: delay_along_route_eq and_then_Returns_iff)

lemma rounding_tolerance_le:
  assumes "length (route_rows route data) \<le> 2 ^ 50"
  shows "2 * rounding_bound (2 * length (route_rows route data) + 2) *
           sum_list (map holdup_size (route_rows route data))
           \<le> additivity_tolerance route data"
proof -
  let ?n = "length (route_rows route data)"
  let ?D = "sum_list (map holdup_size (route_rows route data))"
  have D: "0 \<le> ?D"
    by (rule sum_list_nonneg) (auto simp: holdup_size_nonneg)
  from assms have "2 * ?n + 2 \<le> 2 ^ 52" by simp
  then have "rounding_bound (2 * ?n + 2) \<le> real (2 * ?n + 2) / 2 ^ 52"
    by (rule rounding_bound_le)
  then have "2 * rounding_bound (2 * ?n + 2) \<le> real (?n + 1) / 2 ^ 50"
    by simp
  then have "2 * rounding_bound (2 * ?n + 2) * ?D \<le> real (?n + 1) / 2 ^ 50 * ?D"
    using D by (rule mult_right_mono)
  then show ?thesis
    by (simp add: additivity_tolerance_def Let_def)
qed

lemma ordinary_small: "ordinary 0" "ordinary 1" "ordinary (- 1)"
  by (simp_all add: ordinary_def)

lemma ordinary_numeral:
  "(numeral w :: int) < 2 ^ 53 \<Longrightarrow> ordinary (numeral w)"
  "(numeral w :: int) < 2 ^ 53 \<Longrightarrow> ordinary (- numeral w)"
proof -
  assume w: "(numeral w :: int) < 2 ^ 53"
  then have "real_of_int (numeral w) < real_of_int (2 ^ 53)"
    by (simp only: of_int_less_iff)
  then have "(numeral w :: real) < 2 ^ 53" by simp
  moreover have "(2::real) ^ 53 \<le> 2 ^ 500" by (rule power_increasing) simp_all
  moreover have "(1::real) \<le> numeral w" by simp
  moreover have "(1::real) / 2 ^ 500 \<le> 1" by simp
  ultimately have r: "1 / 2 ^ 500 \<le> (numeral w :: real)" "(numeral w :: real) \<le> 2 ^ 500"
    by linarith+
  from w r show "ordinary (numeral w)"
    by (simp add: ordinary_def float64_numeral)
  from w r show "ordinary (- numeral w)"
    by (simp add: ordinary_def float64_neg_numeral)
qed

lemma thirds_ordinary:
  "\<forall>r \<in> set (route_rows ''A - B'' thirds_trips). total_is_sum r \<and> ordinary_holdups r"
  by (simp add: route_rows_def trip_def thirds_trips_def total_is_sum_def ordinary_holdups_def
      ordinary_small float_arith)

lemma example_ordinary:
  "\<forall>r \<in> set (route_rows ''A - D'' example_trips). total_is_sum r \<and> ordinary_holdups r"
  by (simp add: route_rows_def trip_def example_trips_def total_is_sum_def ordinary_holdups_def
      ordinary_small ordinary_numeral float_arith)

lemma thirds_size:
  "length (route_rows ''A - B'' thirds_trips) = 3"
  "additivity_tolerance ''A - B'' thirds_trips = 1 / 2 ^ 46"
  by (simp_all add: additivity_tolerance_def route_rows_def trip_def thirds_trips_def
      holdup_size_def)

lemma example_size:
  "length (route_rows ''A - D'' example_trips) = 6"
  "additivity_tolerance ''A - D'' example_trips = 161 / 2 ^ 50"
  by (simp_all add: additivity_tolerance_def route_rows_def trip_def example_trips_def
      holdup_size_def)

section \<open>Claims about \<^verbatim>\<open>delay_along_route\<close>\<close>

text \<open>
  C8.  In absolute mode \<^verbatim>\<open>delay_along_route\<close> runs \<^verbatim>\<open>contributions\<close> and, when that returns
  a table, returns the float sum over its rows of the absolute value of the selected
  per-stop average, a missing average counting nothing (mean-then-abs); a failure of
  \<^verbatim>\<open>contributions\<close> is passed on.  This is not the sum of the per-stop averages of the
  absolute values of the raw observations: there is a table on which the two differ.
\<close>

theorem delay_along_route_absolute:
  "delay_along_route route data which_holdup True =
     and_then (contributions route data) (\<lambda>conts.
       Returns (fsum (map (\<lambda>row. case holdup_column which_holdup row of
                                    None \<Rightarrow> 0 | Some m \<Rightarrow> \<bar>m\<bar>) (map snd conts)))) \<and>
   (\<exists>route' data' which'.
      delay_along_route route' data' which' True \<noteq>
      delay_along_route route' (map abs_holdups data') which' False)"
proof
  have "fsum (dropna (map (\<lambda>row. map_option abs (holdup_column which_holdup row)) rows)) =
      fsum (map (\<lambda>row. case holdup_column which_holdup row of None \<Rightarrow> 0 | Some m \<Rightarrow> \<bar>m\<bar>) rows)"
    for rows :: "cont list"
  proof -
    have "(case map_option abs x of None \<Rightarrow> 0 | Some v \<Rightarrow> v) =
        (case x of None \<Rightarrow> 0 | Some m \<Rightarrow> \<bar>m\<bar>)" for x :: "real option"
      by (cases x) simp_all
    then show ?thesis
      by (simp add: fsum_dropna comp_def)
  qed
  then show "delay_along_route route data which_holdup True =
     and_then (contributions route data) (\<lambda>conts.
       Returns (fsum (map (\<lambda>row. case holdup_column which_holdup row of
                                    None \<Rightarrow> 0 | Some m \<Rightarrow> \<bar>m\<bar>) (map snd conts))))"
    by (simp only: delay_along_route_eq if_True)
next
  have "delay_along_route ''A - D'' example_trips ''on_trajectory'' True \<noteq>
      delay_along_route ''A - D'' (map abs_holdups example_trips) ''on_trajectory'' False"
    by (simp add: example_delays abs_example_delay abs_example_sum)
  then show "\<exists>route' data' which'.
      delay_along_route route' data' which' True \<noteq>
      delay_along_route route' (map abs_holdups data') which' False"
    by blast
qed

theorem delay_along_route_absolute_witness:
  "delay_along_route ''A - D'' example_trips ''on_trajectory'' True =
     Returns (fsum [\<bar>0\<bar>, \<bar>- 1\<bar>, \<bar>0\<bar>]) \<and>
   fsum [\<bar>0\<bar>, \<bar>- 1\<bar>, \<bar>0\<bar>] = 1 \<and>
   delay_along_route ''A - D'' (map abs_holdups example_trips) ''on_trajectory'' False =
     Returns (fsum [fdiv (fsum [\<bar>1\<bar>, \<bar>- 1\<bar>]) 2, fdiv (fsum [\<bar>1\<bar>, \<bar>- 5\<bar>, \<bar>1\<bar>]) 3, fdiv (fsum [\<bar>0\<bar>]) 1]) \<and>
   fsum [fdiv (fsum [\<bar>1\<bar>, \<bar>- 1\<bar>]) 2, fdiv (fsum [\<bar>1\<bar>, \<bar>- 5\<bar>, \<bar>1\<bar>]) 3, fdiv (fsum [\<bar>0\<bar>]) 1] =
     7505999378950827 / 2251799813685248"
proof -
  have means: "fdiv (fsum [\<bar>1\<bar>, \<bar>- 1\<bar>]) 2 = 1" "fdiv (fsum [\<bar>1\<bar>, \<bar>- 5\<bar>, \<bar>1\<bar>]) 3 = float64 (7 / 3)"
    "fdiv (fsum [\<bar>0\<bar>]) 1 = 0" "fsum [\<bar>0\<bar>, \<bar>- 1\<bar>, \<bar>0\<bar>] = 1"
    by (simp_all add: float_arith)
  from delay_along_route_absolute [of "''A - D''" example_trips "''on_trajectory''"]
  have "delay_along_route ''A - D'' example_trips ''on_trajectory'' True = Returns 1"
    by (simp add: example_table and_then_simps holdup_column_simps float_arith)
  then show ?thesis
    unfolding means by (simp add: abs_example_delay abs_example_sum)
qed

text \<open>
  C4 (as amended).  Take a route with at most \<open>2 ^ 50\<close> observations, all with ordinary
  holdups and with the total holdup equal to the float sum of the holdup at the stop and
  the holdup on the trajectory.  Then the calls of \<^verbatim>\<open>delay_along_route\<close> with \<^verbatim>\<open>"total"\<close>,
  \<^verbatim>\<open>"at_stop"\<close> and \<^verbatim>\<open>"on_trajectory"\<close>, not in absolute mode, return together, and the
  total differs from the sum of the two others by at most the tolerance of the route:
  \<open>(n + 1) * D / 2 ^ 50\<close> for \<open>n\<close> observations whose raw holdups have the sizes
  \<open>\<bar>holdup_stop\<bar> + \<bar>holdup_trajectory\<bar>\<close> adding up to \<open>D\<close>.  In absolute mode this need not
  hold: there is such a route on which the three calls return and the total is further
  from the sum than the tolerance.
\<close>

theorem delay_along_route_additive:
  assumes "\<forall>r \<in> set (route_rows route data). total_is_sum r \<and> ordinary_holdups r"
    and "length (route_rows route data) \<le> 2 ^ 50"
  shows "(delay_along_route route data ''total'' False = Returns t \<longrightarrow>
            (\<exists>s j. delay_along_route route data ''at_stop'' False = Returns s \<and>
                   delay_along_route route data ''on_trajectory'' False = Returns j \<and>
                   \<bar>t - (s + j)\<bar> \<le> additivity_tolerance route data)) \<and>
         (delay_along_route route data ''at_stop'' False = Returns s \<and>
          delay_along_route route data ''on_trajectory'' False = Returns j \<longrightarrow>
            (\<exists>t. delay_along_route route data ''total'' False = Returns t \<and>
                 \<bar>t - (s + j)\<bar> \<le> additivity_tolerance route data)) \<and>
         (\<exists>route' data' t' s' j'.
            (\<forall>r \<in> set (route_rows route' data'). total_is_sum r \<and> ordinary_holdups r) \<and>
            length (route_rows route' data') \<le> 2 ^ 50 \<and>
            delay_along_route route' data' ''total'' True = Returns t' \<and>
            delay_along_route route' data' ''at_stop'' True = Returns s' \<and>
            delay_along_route route' data' ''on_trajectory'' True = Returns j' \<and>
            additivity_tolerance route' data' < \<bar>t' - (s' + j')\<bar>)"
proof -
  from assms(1) have total: "\<forall>r \<in> set (route_rows route data). total_is_sum r" by simp
  have bound: "\<exists>t s j.
      delay_along_route route data ''total'' False = Returns t \<and>
      delay_along_route route data ''at_stop'' False = Returns s \<and>
      delay_along_route route data ''on_trajectory'' False = Returns j \<and>
      \<bar>t - (s + j)\<bar> \<le> additivity_tolerance route data"
    if "contributions route data = Returns conts" for conts
    using delay_additive [OF total that] rounding_tolerance_le [OF assms(2)] by fastforce
  show ?thesis
  proof (intro conjI impI)
    assume t: "delay_along_route route data ''total'' False = Returns t"
    then obtain conts where "contributions route data = Returns conts"
      using delay_returns by blast
    from bound [OF this] t
    show "\<exists>s j. delay_along_route route data ''at_stop'' False = Returns s \<and>
                   delay_along_route route data ''on_trajectory'' False = Returns j \<and>
                   \<bar>t - (s + j)\<bar> \<le> additivity_tolerance route data"
      by auto
  next
    assume r: "delay_along_route route data ''at_stop'' False = Returns s \<and>
          delay_along_route route data ''on_trajectory'' False = Returns j"
    then obtain conts where "contributions route data = Returns conts"
      using delay_returns by blast
    from bound [OF this] r
    show "\<exists>t. delay_along_route route data ''total'' False = Returns t \<and>
                 \<bar>t - (s + j)\<bar> \<le> additivity_tolerance route data"
      by auto
  next
    have "(\<forall>r \<in> set (route_rows ''A - D'' example_trips). total_is_sum r \<and> ordinary_holdups r) \<and>
        length (route_rows ''A - D'' example_trips) \<le> 2 ^ 50 \<and>
        delay_along_route ''A - D'' example_trips ''total'' True = Returns 6 \<and>
        delay_along_route ''A - D'' example_trips ''at_stop'' True = Returns 7 \<and>
        delay_along_route ''A - D'' example_trips ''on_trajectory'' True = Returns 1 \<and>
        additivity_tolerance ''A - D'' example_trips < \<bar>6 - (7 + 1)\<bar>"
      using example_ordinary by (simp add: example_delays example_size)
    then show "\<exists>route' data' t' s' j'.
            (\<forall>r \<in> set (route_rows route' data'). total_is_sum r \<and> ordinary_holdups r) \<and>
            length (route_rows route' data') \<le> 2 ^ 50 \<and>
            delay_along_route route' data' ''total'' True = Returns t' \<and>
            delay_along_route route' data' ''at_stop'' True = Returns s' \<and>
            delay_along_route route' data' ''on_trajectory'' True = Returns j' \<and>
            additivity_tolerance route' data' < \<bar>t' - (s' + j')\<bar>"
      by blast
  qed
qed

theorem delay_along_route_additive_witness:
  "delay_along_route ''A - B'' thirds_trips ''total'' False =
     Returns (- (6004799503160661 / 9007199254740992)) \<and>
   delay_along_route ''A - B'' thirds_trips ''at_stop'' False =
     Returns (6004799503160661 / 18014398509481984) \<and>
   delay_along_route ''A - B'' thirds_trips ''on_trajectory'' False = Returns (- 1) \<and>
   \<bar>- (6004799503160661 / 9007199254740992) - (6004799503160661 / 18014398509481984 + (- 1))\<bar>
     \<le> additivity_tolerance ''A - B'' thirds_trips \<and>
   \<bar>- (6004799503160661 / 9007199254740992) - (6004799503160661 / 18014398509481984 + (- 1 :: real))\<bar>
     = 1 / 2 ^ 54 \<and>
   additivity_tolerance ''A - B'' thirds_trips = 1 / 2 ^ 46"
proof -
  have n: "length (route_rows ''A - B'' thirds_trips) \<le> 2 ^ 50"
    by (simp add: thirds_size)
  from delay_along_route_additive [OF thirds_ordinary n,
      of "- (6004799503160661 / 9007199254740992)" "6004799503160661 / 18014398509481984" "- 1"]
  have "\<bar>- (6004799503160661 / 9007199254740992) -
          (6004799503160661 / 18014398509481984 + (- 1))\<bar>
          \<le> additivity_tolerance ''A - B'' thirds_trips"
    by (simp add: thirds_delays)
  then show ?thesis
    by (simp add: thirds_delays thirds_size)
qed

text \<open>
  The claim as stated, with the equality exact, fails on a route of one stop with three
  observations whose holdups at the stop are 1, 0, 0 and whose holdups on the trajectory
  are -1, -1, -1: the float nearest to \<open>- 2 / 3\<close> is neither the sum of the float
  nearest to \<open>1 / 3\<close> and \<open>- 1\<close> nor their float sum.
\<close>

theorem delay_along_route_additive_counterexample:
  "list_all total_is_sum (route_rows ''A - B'' thirds_trips) \<and>
   list_all ordinary_holdups (route_rows ''A - B'' thirds_trips) \<and>
   length (route_rows ''A - B'' thirds_trips) = 3 \<and>
   delay_along_route ''A - B'' thirds_trips ''total'' False =
     Returns (- (6004799503160661 / 9007199254740992)) \<and>
   delay_along_route ''A - B'' thirds_trips ''at_stop'' False =
     Returns (6004799503160661 / 18014398509481984) \<and>
   delay_along_route ''A - B'' thirds_trips ''on_trajectory'' False = Returns (- 1) \<and>
   (- (6004799503160661 / 9007199254740992) :: real) \<noteq>
     6004799503160661 / 18014398509481984 + (- 1) \<and>
   - (6004799503160661 / 9007199254740992) \<noteq> fadd (6004799503160661 / 18014398509481984) (- 1)"
  using thirds_ordinary
  by (simp add: thirds_delays thirds_float_sum thirds_size list_all_iff)

section \<open>The loop of \<^verbatim>\<open>measure_of_delay_line\<close>\<close>

lemma measure_single:
  assumes "float64 num = num"
  shows "np_div_count (py_sum [if per_stop then np_truediv num den else Fin num]) (Suc 0) =
           (if per_stop then np_truediv num den else Fin num)"
  using assms
  by (simp add: py_sum_def np_truediv_def fadd_def fdiv_def float64_idem)

lemma measure_loop_first:
  "measure_loop (route # routes) data which_holdup absolute per_stop [] =
     and_then (delay_along_route route data which_holdup absolute) (\<lambda>num.
     and_then (number_of_stops route data) (\<lambda>den.
       Returns (Some (if per_stop then np_truediv num den else Fin num))))"
proof (cases "\<exists>num. delay_along_route route data which_holdup absolute = Returns num")
  case True
  then obtain num where num: "delay_along_route route data which_holdup absolute = Returns num"
    by blast
  then have "float64 num = num" by (rule delay_along_route_float)
  then show ?thesis
    by (simp add: num and_then_simps measure_single)
next
  case False
  then have "delay_along_route route data which_holdup absolute = Hangs \<or>
      (\<exists>e. delay_along_route route data which_holdup absolute = Raises e)"
    by (metis not_Some_eq sum.exhaust)
  then show ?thesis
    by (auto simp: and_then_simps)
qed

lemma stop_count:
  "and_then (delay_along_route route data which_holdup absolute) (\<lambda>num.
     and_then (number_of_stops route data) (f num)) =
   and_then (delay_along_route route data which_holdup absolute) (\<lambda>num.
     and_then (stops_on_route route data) (\<lambda>stops. f num (length stops)))"
proof (cases "\<exists>conts. contributions route data = Returns conts")
  case True
  then obtain conts where c: "contributions route data = Returns conts" by blast
  then obtain stops where s: "stops_on_route route data = Returns stops"
    and "conts = map (\<lambda>s. (s, stop_row (route_rows route data) s)) stops"
    by (auto simp: contributions_Returns_iff)
  then have "length conts = length stops" by simp
  with c s show ?thesis
    by (simp add: delay_along_route_eq number_of_stops_def and_then_simps)
next
  case False
  then have "contributions route data = Hangs \<or> (\<exists>e. contributions route data = Raises e)"
    by (metis not_Some_eq sum.exhaust)
  then show ?thesis
    by (auto simp: delay_along_route_eq and_then_simps)
qed

lemma value_counts_entries:
  "p \<in> set (value_counts tie_rank xs) \<longleftrightarrow> fst p \<in> set xs \<and> snd p = count_list xs (fst p)"
  by (cases p) (auto simp: value_counts_def)

lemma value_counts_sorted:
  "sorted (map (\<lambda>p. (- int (snd p), tie_rank (fst p))) (value_counts tie_rank xs))"
  by (simp add: value_counts_def)

lemma value_counts_head:
  assumes "value_counts tie_rank xs = p # ps"
  shows "count_list xs v \<le> count_list xs (fst p)"
proof (cases "v \<in> set xs")
  case True
  then have "(v, count_list xs v) \<in> set (value_counts tie_rank xs)"
    by (simp add: value_counts_entries)
  with assms value_counts_sorted [of tie_rank xs]
  have "(- int (snd p), tie_rank (fst p)) \<le> (- int (count_list xs v), tie_rank v)"
    by auto
  then have "- int (snd p) \<le> - int (count_list xs v)"
    by (auto simp: less_eq_prod_def)
  moreover from assms have "p \<in> set (value_counts tie_rank xs)" by simp
  then have "snd p = count_list xs (fst p)"
    by (simp add: value_counts_entries)
  ultimately show ?thesis by simp
next
  case False
  then show ?thesis by (simp add: count_list_0_iff)
qed

lemma main_routes_most_frequent:
  assumes "main_routes_of_line tie_rank line data = route # others"
  shows "count_list (map fw_lang (filter (\<lambda>x. linie x = line) data)) r \<le>
         count_list (map fw_lang (filter (\<lambda>x. linie x = line) data)) route"
proof -
  let ?xs = "map fw_lang (filter (\<lambda>x. linie x = line) data)"
  from assms obtain p ps where "value_counts tie_rank ?xs = p # ps" "fst p = route"
    by (cases "value_counts tie_rank ?xs") (auto simp: main_routes_of_line_def Let_def)
  with value_counts_head [of tie_rank ?xs p ps r] show ?thesis by simp
qed

lemma example_routes: "main_routes_of_line tie_rank 10 example_trips = [''A - D'', ''D - A'']"
  by (simp add: main_routes_of_line_def value_counts_def example_trips_def trip_def)

lemma tied_routes:
  "main_routes_of_line (\<lambda>route. 0) 10 tied_trips = [''A - D'', ''D - A'']"
  "main_routes_of_line (\<lambda>route. if route = ''D - A'' then 0 else 1) 10 tied_trips =
     [''D - A'', ''A - D'']"
  by (simp_all add: main_routes_of_line_def value_counts_def tied_trips_def trip_def)

lemma split_DA: "split ''D - A'' = [''D'', ''-'', ''A'']"
  by (simp add: split_def whitespace_def)

lemma example_reverse_raises:
  "stops_on_route ''D - A'' example_trips = Raises (KeyError ''C'')"
proof -
  let ?df = "successor_frame ''D - A'' example_trips"
  have f: "map_of ?df ''D'' = Some ''C''" "map_of ?df ''C'' = None"
    by (simp_all add: map_of_successor_frame successor_map_def route_rows_def trip_def
        example_trips_def)
  have c: "visits (map_of ?df) ''A'' ''C'' ''C''"
    by (rule visits_here) simp
  have "visits (map_of ?df) ''A'' ''D'' ''C''"
    by (rule visits_step [where succ = "map_of ?df" and nxt = "''C''"]) (simp_all add: f c)
  then have "follow ?df ''A'' ''D'' [] = Raises (KeyError ''C'')"
    using f(2) by (rule follow_missing)
  then show ?thesis
    by (simp add: stops_on_route_eq_follow split_DA)
qed

lemma example_reverse_delay:
  "delay_along_route ''D - A'' example_trips ''total'' False = Raises (KeyError ''C'')"
  by (simp add: delay_along_route_eq contributions_eq example_reverse_raises and_then_simps)

section \<open>Claim about \<^verbatim>\<open>measure_of_delay_line\<close>\<close>

text \<open>
  C2.  For a line with at least one canonical route, \<^verbatim>\<open>measure_of_delay_line\<close> leaves its
  loop in the first iteration: its outcome is that of \<^verbatim>\<open>delay_along_route\<close> on the first
  canonical route alone, the returned delay divided by the number of stops of that route
  when \<^verbatim>\<open>per_stop\<close> is set; no other route is looked at.  The first canonical route is
  a most frequent route label of the line, whatever the order that pandas gives to route
  labels of equal count.
\<close>

theorem measure_of_delay_line_first_route:
  assumes "main_routes_of_line tie_rank line data = route # others"
  shows "measure_of_delay_line tie_rank line data which_holdup absolute per_stop =
           and_then (delay_along_route route data which_holdup absolute) (\<lambda>num.
           and_then (stops_on_route route data) (\<lambda>stops.
             Returns (Some (if per_stop then np_truediv num (length stops) else Fin num)))) \<and>
         (\<forall>r. count_list (map fw_lang (filter (\<lambda>x. linie x = line) data)) r \<le>
              count_list (map fw_lang (filter (\<lambda>x. linie x = line) data)) route)"
proof
  show "measure_of_delay_line tie_rank line data which_holdup absolute per_stop =
           and_then (delay_along_route route data which_holdup absolute) (\<lambda>num.
           and_then (stops_on_route route data) (\<lambda>stops.
             Returns (Some (if per_stop then np_truediv num (length stops) else Fin num))))"
    unfolding measure_of_delay_line_def assms measure_loop_first
    by (rule stop_count)
next
  from assms show "\<forall>r. count_list (map fw_lang (filter (\<lambda>x. linie x = line) data)) r \<le>
              count_list (map fw_lang (filter (\<lambda>x. linie x = line) data)) route"
    by (blast intro: main_routes_most_frequent)
qed

theorem measure_of_delay_line_first_route_witness:
  "measure_of_delay_line (\<lambda>route. 0) 10 example_trips ''total'' False True =
     Returns (Some (Fin (fdiv 2 3))) \<and>
   fdiv 2 3 = 6004799503160661 / 9007199254740992 \<and>
   measure_of_delay_line (\<lambda>route. 0) 10 example_trips ''total'' False False = Returns (Some (Fin 2)) \<and>
   delay_along_route ''A - D'' example_trips ''total'' False = Returns 2 \<and>
   delay_along_route ''D - A'' example_trips ''total'' False = Raises (KeyError ''C'')"
  using measure_of_delay_line_first_route [OF example_routes, of "\<lambda>route. 0" "''total''" False True]
    measure_of_delay_line_first_route [OF example_routes, of "\<lambda>route. 0" "''total''" False False]
  by (simp add: example_delays example_stops and_then_simps np_truediv_def
      example_reverse_delay fdiv_def float64_thirds)

section \<open>\<^verbatim>\<open>freq_major_delays_route\<close> in closed form\<close>

lemma is_major_gt:
  "is_major ''deviation'' threshold r =
     (gt (delay_after_trajectory r) threshold \<or> lt (delay_after_trajectory r) (- threshold))"
  "what \<noteq> ''deviation'' \<Longrightarrow> is_major what threshold r = gt (delay_after_trajectory r) threshold"
  by (auto simp: gt_def lt_def is_major_def split: option.splits)

lemma freq_major_delays_route_eq:
  "freq_major_delays_route route data cutoff per_stop what =
     and_then (stops_on_route route data) (\<lambda>stops.
       if length stops < 2 then Raises IndexError
       else if observed_at route data (stops ! (length stops - 2)) = []
            then Raises ZeroDivisionError
            else Returns
              (length (observed_at route data (stops ! (length stops - 2))),
               length (filter (is_major what
                                 (if per_stop then fmul cutoff (real (length stops)) else cutoff))
                         (observed_at route data (stops ! (length stops - 2)))),
               py_round
                 (fmul (fdiv
                    (real (length (filter (is_major what
                                  (if per_stop then fmul cutoff (real (length stops)) else cutoff))
                          (observed_at route data (stops ! (length stops - 2))))))
                    (real (length (observed_at route data (stops ! (length stops - 2)))))) 100) 2))"
proof (cases "what = ''deviation''")
  case True
  then show ?thesis
    by (simp add: freq_major_delays_route_def Let_def route_rows_def observed_at_def
        is_major_gt(1) cong: if_cong)
next
  case False
  then show ?thesis
    by (simp add: freq_major_delays_route_def Let_def route_rows_def observed_at_def
        is_major_gt(2) cong: if_cong)
qed

lemma freq_Returns_iff:
  "freq_major_delays_route route data cutoff per_stop what = Returns (n, m, p) \<longleftrightarrow>
     (\<exists>stops. stops_on_route route data = Returns stops \<and> 2 \<le> length stops \<and>
        observed_at route data (stops ! (length stops - 2)) \<noteq> [] \<and>
        n = length (observed_at route data (stops ! (length stops - 2))) \<and>
        m = length (filter (is_major what (if per_stop then fmul cutoff (real (length stops)) else cutoff))
                     (observed_at route data (stops ! (length stops - 2)))) \<and>
        p = py_round (fmul (fdiv (real m) (real n)) 100) 2)"
proof -
  let ?obs = "\<lambda>stops. observed_at route data (stops ! (length stops - 2))"
  let ?major = "\<lambda>stops. filter (is_major what (if per_stop then fmul cutoff (real (length stops)) else cutoff))
                     (?obs stops)"
  let ?body = "\<lambda>stops. if length stops < 2 then Raises IndexError
       else if ?obs stops = [] then Raises ZeroDivisionError
            else Returns (length (?obs stops), length (?major stops),
                   py_round (fmul (fdiv (real (length (?major stops))) (real (length (?obs stops)))) 100) 2)"
  have eq: "freq_major_delays_route route data cutoff per_stop what =
      and_then (stops_on_route route data) ?body"
    by (rule freq_major_delays_route_eq)
  have body: "?body stops = Returns (n, m, p) \<longleftrightarrow>
      2 \<le> length stops \<and> ?obs stops \<noteq> [] \<and> n = length (?obs stops) \<and>
      m = length (?major stops) \<and> p = py_round (fmul (fdiv (real m) (real n)) 100) 2" for stops
  proof (cases "length stops < 2")
    case True
    then show ?thesis by simp
  next
    case False
    show ?thesis
    proof (cases "?obs stops = []")
      case True
      with False show ?thesis by simp
    next
      case nonempty: False
      with False show ?thesis by (simp only: if_False) auto
    qed
  qed
  show ?thesis
    unfolding eq and_then_Returns_iff body ..
qed

lemma percentage_bound:
  assumes "m \<le> n" and "0 < n"
  shows "\<bar>py_round (fmul (fdiv (real m) (real n)) 100) 2 - 100 * real m / real n\<bar>
           \<le> 1 / 200 + 1 / 10 ^ 12"
proof -
  define r where "r = real m / real n"
  define q where "q = fdiv (real m) (real n)"
  define x where "x = fmul q 100"
  define y where "y = real_of_int (round_half_even (x * 100)) / 100"
  define u :: real where "u = 1 / 2 ^ 53"
  from assms have r: "0 \<le> r" "r \<le> 1" by (simp_all add: r_def)
  have "\<bar>q - r\<bar> \<le> \<bar>r\<bar> / 2 ^ 53"
    unfolding q_def r_def fdiv_def by (rule float64_error)
  also have "\<dots> \<le> 1 / 2 ^ 53" using r by (intro divide_right_mono) simp_all
  finally have q: "\<bar>q - r\<bar> \<le> u" by (simp add: u_def)
  have u1: "u \<le> 1 / 1000" by (simp add: u_def)
  from q r u1 have qa: "\<bar>q\<bar> \<le> 2" by linarith
  have "\<bar>x - q * 100\<bar> \<le> \<bar>q * 100\<bar> / 2 ^ 53"
    unfolding x_def fmul_def by (rule float64_error)
  also have "\<dots> \<le> 200 / 2 ^ 53"
    using qa by (intro divide_right_mono) (simp_all add: abs_mult)
  finally have x: "\<bar>x - q * 100\<bar> \<le> 200 * u" by (simp add: u_def)
  with qa u1 have xa: "\<bar>x\<bar> \<le> 201" by linarith
  have "y - x = (real_of_int (round_half_even (x * 100)) - x * 100) / 100"
    by (simp add: y_def diff_divide_distrib)
  then have "\<bar>y - x\<bar> = \<bar>real_of_int (round_half_even (x * 100)) - x * 100\<bar> / 100"
    by (simp only: abs_divide abs_numeral)
  with round_half_even_bound [of "x * 100"] have y: "\<bar>y - x\<bar> \<le> 1 / 200" by simp
  with xa have ya: "\<bar>y\<bar> \<le> 202" by linarith
  have "\<bar>float64 y - y\<bar> \<le> \<bar>y\<bar> / 2 ^ 53" by (rule float64_error)
  also have "\<dots> \<le> 202 / 2 ^ 53" using ya by (intro divide_right_mono) simp_all
  finally have p: "\<bar>float64 y - y\<bar> \<le> 202 * u" by (simp add: u_def)
  have "py_round x 2 = float64 y" by (simp add: py_round_def y_def)
  moreover have "\<bar>float64 y - 100 * r\<bar> \<le> 1 / 200 + 502 * u"
    using p y x q by linarith
  moreover have "502 * u \<le> 1 / 10 ^ 12" by (simp add: u_def)
  ultimately show ?thesis
    unfolding x_def q_def r_def by simp
qed

section \<open>Example calls of \<^verbatim>\<open>freq_major_delays_route\<close>\<close>

lemma example_observed_at_B:
  "observed_at ''A - D'' example_trips ''B'' =
     [trip ''A - D'' ''B'' ''C'' 1 1 5, trip ''A - D'' ''B'' ''C'' 3 (-5) 1,
      trip ''A - D'' ''B'' ''C'' 2 1 (-20)]"
  by (simp add: observed_at_def example_trips_def trip_def)

lemma example_observed_at_C:
  "observed_at ''A - D'' example_trips ''C'' = [trip ''A - D'' ''C'' ''D'' (-2) 0 3]"
  by (simp add: observed_at_def example_trips_def trip_def)

lemma example_major:
  "filter (is_major ''delay'' 3) (observed_at ''A - D'' example_trips ''B'') =
     [trip ''A - D'' ''B'' ''C'' 1 1 5]"
  "filter (is_major ''deviation'' 3) (observed_at ''A - D'' example_trips ''B'') =
     [trip ''A - D'' ''B'' ''C'' 1 1 5, trip ''A - D'' ''B'' ''C'' 2 1 (-20)]"
  "filter (is_major ''deviation'' 1) (observed_at ''A - D'' example_trips ''B'') =
     [trip ''A - D'' ''B'' ''C'' 1 1 5, trip ''A - D'' ''B'' ''C'' 2 1 (-20)]"
  by (simp_all add: example_observed_at_B) (simp_all add: is_major_def trip_def)

lemma example_major_cutoff:
  "filter (is_major ''delay'' 6) (observed_at ''A - D'' example_trips ''B'') = []"
  "filter (is_major ''deviation'' 6) (observed_at ''A - D'' example_trips ''B'') =
     [trip ''A - D'' ''B'' ''C'' 2 1 (-20)]"
  "filter (is_major ''delay'' 2) (observed_at ''A - D'' example_trips ''B'') =
     [trip ''A - D'' ''B'' ''C'' 1 1 5]"
  "filter (is_major ''deviation'' 2) (observed_at ''A - D'' example_trips ''B'') =
     [trip ''A - D'' ''B'' ''C'' 1 1 5, trip ''A - D'' ''B'' ''C'' 2 1 (-20)]"
  by (simp_all add: example_observed_at_B) (simp_all add: is_major_def trip_def)

lemma example_observed_count:
  "length (observed_at ''A - D'' example_trips ''B'') = 3"
  "observed_at ''A - D'' example_trips ''B'' \<noteq> []"
  by (simp_all add: example_observed_at_B)

lemma percentages:
  "fmul (fdiv 1 3) 100 = 2345624805922133 / 70368744177664"
  "py_round (fmul (fdiv 1 3) 100) 2 = 2345390243441541 / 70368744177664"
  "fmul (fdiv 2 3) 100 = 2345624805922133 / 35184372088832"
  "py_round (fmul (fdiv 2 3) 100) 2 = 4691484174324859 / 70368744177664"
  "fmul (fdiv 23 160) 100 = 8092405580431359 / 562949953421312"
  "py_round (fmul (fdiv 23 160) 100) 2 = 8089590830664253 / 562949953421312"
  by (simp_all add: fmul_def fdiv_def py_round_def float64_eval)

lemma hundredths:
  "float64 (3333 / 100) = 2345390243441541 / 70368744177664"
  "float64 (6667 / 100) = 4691484174324859 / 70368744177664"
  "float64 (1437 / 100) = 8089590830664253 / 562949953421312"
  "float64 (1438 / 100) = 8095220330198467 / 562949953421312"
  by (simp_all add: float64_eval)

lemma crowd_rows:
  "route_rows ''A - D'' crowd_trips = crowd_trips"
  by (simp add: route_rows_def crowd_trips_def trip_def)

lemma funpow_update:
  "((\<lambda>m. m(k \<mapsto> v)) ^^ n) m = (if n = 0 then m else m(k \<mapsto> v))"
  by (induction n) auto

lemma crowd_successors:
  "successor_map ''A - D'' crowd_trips ''A'' = Some ''B''"
  "successor_map ''A - D'' crowd_trips ''B'' = Some ''C''"
  "successor_map ''A - D'' crowd_trips ''C'' = Some ''D''"
  by (simp_all add: successor_map_def crowd_rows)
    (simp_all add: crowd_trips_def trip_def funpow_update)

lemma crowd_stops: "stops_on_route ''A - D'' crowd_trips = Returns [''A'', ''B'', ''C'']"
  by (simp add: stops_on_route_Returns_iff split_AD crowd_successors)

lemma crowd_observed:
  "observed_at ''A - D'' crowd_trips ''B'' =
     replicate 23 (trip ''A - D'' ''B'' ''C'' 0 0 10) @ replicate 137 (trip ''A - D'' ''B'' ''C'' 0 0 0)"
  by (simp add: observed_at_def crowd_trips_def trip_def)

lemma crowd_major:
  "filter (is_major ''delay'' 5) (observed_at ''A - D'' crowd_trips ''B'') =
     replicate 23 (trip ''A - D'' ''B'' ''C'' 0 0 10)"
  unfolding crowd_observed by (simp add: is_major_def trip_def)

lemma crowd_freq:
  "freq_major_delays_route ''A - D'' crowd_trips 5 False ''delay'' =
     Returns (160, 23, 8089590830664253 / 562949953421312)"
  by (simp add: freq_Returns_iff crowd_stops crowd_major)
    (simp add: crowd_observed percentages(6))

lemma example_threshold: "fmul 1 3 = 3"
  by (simp add: fmul_def float64_numeral)

lemma example_freq:
  "freq_major_delays_route ''A - D'' example_trips 1 True ''delay'' =
     Returns (3, 1, 2345390243441541 / 70368744177664)"
  "freq_major_delays_route ''A - D'' example_trips 1 True ''deviation'' =
     Returns (3, 2, 4691484174324859 / 70368744177664)"
  "freq_major_delays_route ''A - D'' example_trips 2 False ''delay'' =
     Returns (3, 1, 2345390243441541 / 70368744177664)"
  by (simp_all add: freq_Returns_iff example_stops example_major example_major_cutoff
      example_observed_count percentages(2,4) example_threshold)

lemma counted_stop:
  assumes "stops_on_route route data = Returns stops" and "2 \<le> length stops"
  shows "successor_map route data (stops ! (length stops - 2)) = Some (last stops)"
    and "successor_map route data (last stops) = Some (split route ! 2)"
    and "stops ! (length stops - 2) \<noteq> last stops"
proof -
  from assms(1) have c: "chain (successor_map route data) (split route ! 2) (split route ! 0) stops"
    by (rule stops_on_route_chain)
  from assms(2) have ne: "stops \<noteq> []" by auto
  from assms(2) have i: "Suc (length stops - 2) < length stops" by simp
  from assms(2) have l: "last stops = stops ! Suc (length stops - 2)"
    using ne by (simp add: last_conv_nth Suc_diff_Suc numeral_2_eq_2)
  from chain_nth [OF c i] l
  show "successor_map route data (stops ! (length stops - 2)) = Some (last stops)"
    by simp
  from chain_last [OF c ne]
  show "successor_map route data (last stops) = Some (split route ! 2)" .
  from c have "distinct stops" by (rule chain_distinct)
  with i have "stops ! (length stops - 2) \<noteq> stops ! Suc (length stops - 2)"
    by (simp add: nth_eq_iff_index_eq)
  with l show "stops ! (length stops - 2) \<noteq> last stops" by simp
qed

section \<open>Claims about \<^verbatim>\<open>freq_major_delays_route\<close>\<close>

text \<open>
  C7.  Whenever \<^verbatim>\<open>freq_major_delays_route\<close> returns its counts, they count the observations
  of the route taken at the stop \<^verbatim>\<open>stops_on_route(route, data)[-2]\<close>, which the code calls
  \<^verbatim>\<open>penultimate_stop\<close>: \<open>n\<close> is their number, and \<open>m\<close> the number of those whose
  \<^verbatim>\<open>delay_after_trajectory\<close> is major for the threshold (the float product of the cutoff and
  the length of the sequence when \<^verbatim>\<open>per_stop\<close> is set, the cutoff itself otherwise; in
  deviation mode the absolute value of the delay is compared, otherwise the signed value).
  The counted stop is not the second-to-last stop of the route.  The sequence of
  \<^verbatim>\<open>stops_on_route\<close> leaves out the final stop of the label, so the route goes on from
  the counted stop to the last stop of the sequence, which is another stop, and only from
  there to the final stop: the counted stop is the third-to-last stop of the route, and
  the observations at the second-to-last stop, whose delay after the trajectory is the
  delay at the final stop, are not counted.
\<close>

theorem freq_major_delays_route_counted_stop:
  assumes "freq_major_delays_route route data cutoff per_stop what = Returns (n, m, p)"
  shows "\<exists>stops. stops_on_route route data = Returns stops \<and> 2 \<le> length stops \<and>
           n = length (observed_at route data (stops ! (length stops - 2))) \<and>
           m = length (filter (is_major what
                                 (if per_stop then fmul cutoff (real (length stops)) else cutoff))
                         (observed_at route data (stops ! (length stops - 2)))) \<and>
           successor_map route data (stops ! (length stops - 2)) = Some (last stops) \<and>
           successor_map route data (last stops) = Some (split route ! 2) \<and>
           stops ! (length stops - 2) \<noteq> last stops"
proof -
  from assms obtain stops where s: "stops_on_route route data = Returns stops"
    and l: "2 \<le> length stops"
    and n: "n = length (observed_at route data (stops ! (length stops - 2)))"
    and m: "m = length (filter (is_major what
                                 (if per_stop then fmul cutoff (real (length stops)) else cutoff))
                         (observed_at route data (stops ! (length stops - 2))))"
    unfolding freq_Returns_iff by blast
  from counted_stop [OF s l] s l n m show ?thesis by blast
qed

theorem freq_major_delays_route_counted_stop_witness:
  "freq_major_delays_route ''A - D'' example_trips 2 False ''delay'' =
     Returns (3, 1, 2345390243441541 / 70368744177664) \<and>
   stops_on_route ''A - D'' example_trips = Returns [''A'', ''B'', ''C''] \<and>
   [''A'', ''B'', ''C''] ! (length [''A'', ''B'', ''C''] - 2) = ''B'' \<and>
   successor_map ''A - D'' example_trips ''B'' = Some ''C'' \<and>
   successor_map ''A - D'' example_trips ''C'' = Some ''D'' \<and>
   length (observed_at ''A - D'' example_trips ''B'') = 3 \<and>
   length (filter (is_major ''delay'' 2) (observed_at ''A - D'' example_trips ''B'')) = 1 \<and>
   length (observed_at ''A - D'' example_trips ''C'') = 1 \<and>
   length (filter (is_major ''delay'' 2) (observed_at ''A - D'' example_trips ''C'')) = 1"
proof -
  from freq_major_delays_route_counted_stop [OF example_freq(3)]
  have "successor_map ''A - D'' example_trips ''B'' = Some ''C'' \<and>
      successor_map ''A - D'' example_trips ''C'' = Some ''D'' \<and>
      length (observed_at ''A - D'' example_trips ''B'') = 3 \<and>
      length (filter (is_major ''delay'' 2) (observed_at ''A - D'' example_trips ''B'')) = 1"
    by (simp add: example_stops split_AD)
  then show ?thesis
    by (simp add: example_freq(3) example_stops example_observed_at_C is_major_def trip_def)
qed

text \<open>
  C6 (as amended).  Whenever \<^verbatim>\<open>freq_major_delays_route\<close> returns the triple of the total
  count, the major count and the percentage, the total count is positive, the major count
  is at most the total count, and the percentage is what \<^verbatim>\<open>round\<close> makes of the float
  \<^verbatim>\<open>(major_count / total_count) * 100\<close>: a float with two decimals that is within
  \<open>0.005 + 1e-12\<close> of \<open>100 * major_count / total_count\<close>.  The function returns such a
  triple whenever \<^verbatim>\<open>stops_on_route\<close> returns at least two stops and there is an
  observation to count (at the stop that C7 is about).
\<close>

theorem freq_major_delays_route_percentage:
  "(freq_major_delays_route route data cutoff per_stop what =
       Returns (total_count, major_count, percentage) \<longrightarrow>
      0 < total_count \<and> major_count \<le> total_count \<and>
      percentage = py_round (fmul (fdiv (real major_count) (real total_count)) 100) 2 \<and>
      \<bar>percentage - 100 * real major_count / real total_count\<bar> \<le> 1 / 200 + 1 / 10 ^ 12) \<and>
   (stops_on_route route data = Returns stops \<and> 2 \<le> length stops \<and>
      observed_at route data (stops ! (length stops - 2)) \<noteq> [] \<longrightarrow>
      (\<exists>res. freq_major_delays_route route data cutoff per_stop what = Returns res))"
proof (intro conjI impI)
  assume r: "freq_major_delays_route route data cutoff per_stop what =
       Returns (total_count, major_count, percentage)"
  then obtain stops where n: "total_count = length (observed_at route data (stops ! (length stops - 2)))"
    and ne: "observed_at route data (stops ! (length stops - 2)) \<noteq> []"
    and m: "major_count = length (filter (is_major what (if per_stop then fmul cutoff (real (length stops)) else cutoff))
                     (observed_at route data (stops ! (length stops - 2))))"
    and p: "percentage = py_round (fmul (fdiv (real major_count) (real total_count)) 100) 2"
    unfolding freq_Returns_iff by blast
  from n ne show pos: "0 < total_count" by simp
  from n m show le: "major_count \<le> total_count" by simp
  from p show "percentage = py_round (fmul (fdiv (real major_count) (real total_count)) 100) 2" .
  show "\<bar>percentage - 100 * real major_count / real total_count\<bar> \<le> 1 / 200 + 1 / 10 ^ 12"
    unfolding p using le pos by (rule percentage_bound)
next
  assume "stops_on_route route data = Returns stops \<and> 2 \<le> length stops \<and>
      observed_at route data (stops ! (length stops - 2)) \<noteq> []"
  then show "\<exists>res. freq_major_delays_route route data cutoff per_stop what = Returns res"
    by (simp add: freq_major_delays_route_eq and_then_simps)
qed

theorem freq_major_delays_route_percentage_witness:
  "freq_major_delays_route ''A - D'' example_trips 1 True ''delay'' =
     Returns (3, 1, 2345390243441541 / 70368744177664) \<and>
   (0::nat) < 3 \<and> (1::nat) \<le> 3 \<and>
   (2345390243441541 / 70368744177664 :: real) = py_round (fmul (fdiv (real 1) (real 3)) 100) 2 \<and>
   \<bar>2345390243441541 / 70368744177664 - 100 * real 1 / real 3\<bar> \<le> 1 / 200 + 1 / 10 ^ 12 \<and>
   (2345390243441541 / 70368744177664 :: real) = float64 (3333 / 100)"
  using freq_major_delays_route_percentage
    [of "''A - D''" example_trips 1 True "''delay''" 3 1 "2345390243441541 / 70368744177664"]
    example_freq(1)
  by (simp add: hundredths)

text \<open>
  The claim as stated fails with 23 major observations of 160: the quotient \<open>0.14375\<close>
  is not a float, its product with 100 comes out just below \<open>14.375\<close>, and the returned
  percentage is the float nearest to \<open>14.37\<close>.  It is not \<open>100 * 23 / 160\<close>, and it
  is further from it than \<open>0.005\<close>.
\<close>

theorem freq_major_delays_route_percentage_counterexample:
  "freq_major_delays_route ''A - D'' crowd_trips 5 False ''delay'' =
     Returns (160, 23, 8089590830664253 / 562949953421312) \<and>
   (8089590830664253 / 562949953421312 :: real) \<noteq> 100 * 23 / 160 \<and>
   (8089590830664253 / 562949953421312 :: real) = float64 (1437 / 100) \<and>
   1 / 200 < \<bar>8089590830664253 / 562949953421312 - 100 * 23 / (160 :: real)\<bar>"
  using crowd_freq by (simp add: hundredths)

section \<open>The replacements and the lookup of \<^verbatim>\<open>convert_short_to_long\<close>\<close>

lemma scan_replace_Nil: "scan_replace old new [] = []"
  by (simp add: scan_replace.simps)

lemma scan_replace_Cons:
  "old \<noteq> [] \<Longrightarrow> scan_replace old new (c # cs) =
     (if take (length old) (c # cs) = old
      then new @ scan_replace old new (drop (length old) (c # cs))
      else c # scan_replace old new cs)"
  by (subst scan_replace.simps) simp

lemma scan_replace_absent:
  "old \<noteq> [] \<Longrightarrow> \<not> occurs old s \<Longrightarrow> scan_replace old new s = s"
  by (induction s) (simp_all add: scan_replace_Nil scan_replace_Cons)

lemma scan_replace_prefix:
  "old \<noteq> [] \<Longrightarrow> scan_replace old new (old @ s) = new @ scan_replace old new s"
  by (cases old) (simp_all add: scan_replace_Cons)

lemma occurs_append: "occurs (p @ q) s \<Longrightarrow> occurs p s"
proof (induction s)
  case Nil
  then show ?case by simp
next
  case (Cons c cs)
  show ?case
  proof (cases "take (length (p @ q)) (c # cs) = p @ q")
    case True
    then have "take (length p) (take (length (p @ q)) (c # cs)) = take (length p) (p @ q)"
      by simp
    then have "take (length p) (c # cs) = p"
      by (simp add: min_def)
    then show ?thesis by simp
  next
    case False
    with Cons show ?thesis by simp
  qed
qed

lemma city_space_city: "city_space = city @ '' ''"
  by (simp add: city_space_def city_def)

lemma occurs_city_space: "occurs city_space s \<Longrightarrow> occurs city s"
  unfolding city_space_city by (rule occurs_append)

lemma city_nonempty: "city \<noteq> []" "city_space \<noteq> []"
  by (simp_all add: city_def city_space_def)

lemma strip_city_eq:
  "strip_city long = scan_replace city [] (scan_replace city_space [] long)"
  by (simp add: strip_city_def str_replace_def city_nonempty)

lemma strip_city_absent:
  assumes "\<not> occurs city rest"
  shows "strip_city rest = rest"
proof -
  from assms have "\<not> occurs city_space rest"
    by (auto dest: occurs_city_space)
  then have "scan_replace city_space [] rest = rest"
    by (simp add: scan_replace_absent city_nonempty)
  moreover from assms have "scan_replace city [] rest = rest"
    by (simp add: scan_replace_absent city_nonempty)
  ultimately show ?thesis
    by (simp add: strip_city_eq)
qed

lemma strip_city_space_prefix:
  "\<not> occurs city rest \<Longrightarrow> strip_city (city_space @ rest) = rest"
  using strip_city_absent [of rest]
  by (simp add: strip_city_eq scan_replace_prefix city_nonempty)

lemma no_city_space_in_city:
  assumes "\<not> occurs city rest" "take 1 rest \<noteq> '' ''"
  shows "\<not> occurs city_space (city @ rest)"
proof -
  from assms(1) have "\<not> occurs city_space rest"
    by (auto dest: occurs_city_space)
  moreover have "take (Suc 0) rest \<noteq> '' ''"
    using assms(2) by simp
  ultimately show ?thesis
    by (cases rest) (simp_all add: city_def city_space_def)
qed

lemma strip_city_prefix:
  assumes "\<not> occurs city rest" "take 1 rest \<noteq> '' ''"
  shows "strip_city (city @ rest) = rest"
proof -
  have "scan_replace city_space [] (city @ rest) = city @ rest"
    using no_city_space_in_city [OF assms] by (simp add: scan_replace_absent city_nonempty)
  moreover have "scan_replace city [] (city @ rest) = rest"
    using assms(1) by (simp add: scan_replace_prefix scan_replace_absent city_nonempty)
  ultimately show ?thesis
    by (simp add: strip_city_eq)
qed




lemma map_option_strip_city:
  "map_option (str_replace city []) (map_option (str_replace city_space []) v) =
     map_option strip_city v"
  by (cases v) (simp_all add: strip_city_def)

lemma convert_short_to_long_eq:
  "convert_short_to_long name data =
     loc_series (drop_duplicates_values [] (map cleaned data)) name"
proof -
  have eq: "map (\<lambda>(k, v). (k, map_option (str_replace city []) (map_option (str_replace city_space []) v)))
          (map (\<lambda>r. (halt_kurz r, halt_lang r)) data) = map cleaned data"
    by (simp add: cleaned_def map_option_strip_city)
  show ?thesis
    unfolding convert_short_to_long_def Let_def eq ..
qed



lemma convert_stops_eq:
  "convert_short_to_long_stops name stops =
     (case map (map_option strip_city \<circ> snd) (filter (\<lambda>kv. fst kv = Some name) stops) of
        [] \<Rightarrow> Inl (KeyError name)
      | [v] \<Rightarrow> Inr (Scalar v)
      | vs \<Rightarrow> Inr (Series vs))"
proof -
  let ?g = "\<lambda>(k, v). (k, map_option (str_replace city []) (map_option (str_replace city_space []) v))"
  have "map snd (filter (\<lambda>kv. fst kv = Some name) (map ?g stops)) =
      map (map_option strip_city \<circ> snd) (filter (\<lambda>kv. fst kv = Some name) stops)"
    by (induction stops) (auto simp: map_option_strip_city)
  then show ?thesis
    by (simp add: convert_short_to_long_stops_def loc_series_def)
qed

lemma example_absent:
  "\<not> occurs city ''Rehalp''" "\<not> occurs city ''Bahnhofstrasse''" "\<not> occurs city ''Zoo''"
  "\<not> occurs city ''Depot''"
  by (simp_all add: city_def)

lemma example_cleaned:
  "strip_city (city_space @ ''Rehalp'') = ''Rehalp''"
  "strip_city (city @ ''Bahnhofstrasse'') = ''Bahnhofstrasse''"
  "strip_city (city_space @ ''Zoo'') = ''Zoo''"
  "strip_city (city_space @ ''Depot'') = ''Depot''"
  "strip_city ''Depot'' = ''Depot''"
proof -
  show "strip_city (city_space @ ''Rehalp'') = ''Rehalp''"
    by (rule strip_city_space_prefix) (rule example_absent)
  show "strip_city (city @ ''Bahnhofstrasse'') = ''Bahnhofstrasse''"
    by (rule strip_city_prefix [OF example_absent(2)]) simp
  show "strip_city (city_space @ ''Zoo'') = ''Zoo''"
    by (rule strip_city_space_prefix) (rule example_absent)
  show "strip_city (city_space @ ''Depot'') = ''Depot''"
    by (rule strip_city_space_prefix) (rule example_absent)
  show "strip_city ''Depot'' = ''Depot''"
    by (rule strip_city_absent) (rule example_absent)
qed


lemma convert_short_to_long_stops_resolves:
  "(Some name \<notin> fst ` set stops \<longrightarrow>
      convert_short_to_long_stops name stops = Inl (KeyError name)) \<and>
   (filter (\<lambda>kv. fst kv = Some name) stops = [(Some name, Some long)] \<longrightarrow>
      convert_short_to_long_stops name stops = Inr (Scalar (Some (strip_city long))))"
proof (intro conjI impI)
  assume "Some name \<notin> fst ` set stops"
  then have "filter (\<lambda>kv. fst kv = Some name) stops = []"
    by (force simp: filter_empty_conv)
  then show "convert_short_to_long_stops name stops = Inl (KeyError name)"
    by (simp add: convert_stops_eq)
next
  assume "filter (\<lambda>kv. fst kv = Some name) stops = [(Some name, Some long)]"
  then show "convert_short_to_long_stops name stops = Inr (Scalar (Some (strip_city long)))"
    by (simp add: convert_stops_eq)
qed


section \<open>Claim about \<^verbatim>\<open>convert_short_to_long\<close>\<close>




text \<open>
  \<^verbatim>\<open>drop_duplicates\<close> on the series compares the names, not the codes.  Of two codes whose
  names are the same after the replacements only the first stays in the series, and the
  second code is not found although the table carries it; the resolver of \<^verbatim>\<open>func_defs.py\<close>,
  which has no \<^verbatim>\<open>drop_duplicates\<close>, finds it.
\<close>

lemma convert_short_to_long_shared_name:
  "convert_short_to_long ''A1'' shared_name_stops = Inr (Scalar (Some ''Depot'')) \<and>
   convert_short_to_long ''A2'' shared_name_stops = Inl (KeyError ''A2'') \<and>
   convert_short_to_long_stops ''A2'' (map (\<lambda>r. (halt_kurz r, halt_lang r)) shared_name_stops)
     = Inr (Scalar (Some ''Depot''))"
  by (simp add: convert_short_to_long_eq convert_stops_eq loc_series_def cleaned_def
      shared_name_stops_def stop_entry_def trip_def example_cleaned)

end
